theory Spec2Isabelle
  imports Complex_Main
begin

section \<open>Numbers\<close>

text \<open>
  The counters of the program (frame rates after \<open>Math.round\<close>, draw calls, tree counts,
  parsed limits) are integers and are modelled as \<open>int\<close> or \<open>nat\<close>; times and byte
  counts are modelled as \<open>real\<close>. JavaScript computes all of them as IEEE doubles, which
  agree with the integers below \<open>2 ^ 53\<close>.
\<close>

definition js_round :: "real \<Rightarrow> int" where
  \<comment> \<open>\<open>Math.round\<close>: the nearest integer, a half rounded up.\<close>
  "js_round x = \<lfloor>x + 1 / 2\<rfloor>"

definition or0 :: "int option \<Rightarrow> int" where
  \<comment> \<open>\<open>x || 0\<close> for a number that may be missing: \<open>undefined\<close> and \<open>0\<close> both give \<open>0\<close>.\<close>
  "or0 x = (case x of None \<Rightarrow> 0 | Some n \<Rightarrow> n)"

text \<open>The exceptions of the model.\<close>

datatype js_error = RangeError | TypeError

section \<open>VisualProfiler: the metrics sampler\<close>

datatype metric = Fps | Memory | DrawCalls

record threshold =
  green :: int
  yellow :: int

datatype icon = CheckMark | WarningSign | CrossMark

text \<open>The object \<open>{ c, i, l }\<close> that \<open>getHealth\<close> returns: class, icon and label.\<close>

record health =
  c_class :: string
  i_icon :: icon
  l_label :: string

record metrics =
  fps :: int
  frameTime :: real
  memory :: int
  drawCalls :: int
  triangles :: int
  geometries :: int

text \<open>\<open>renderer.info\<close>: \<open>render.calls\<close>, \<open>render.triangles\<close> and \<open>memory.geometries\<close>,
  each of which may be missing.\<close>

record render_info =
  calls :: "int option"
  render_triangles :: "int option"
  memory_geometries :: "int option"

record profiler =
  thresholds :: "metric \<Rightarrow> threshold"
  metrics :: metrics
  fpsHistory :: "int list"
  historyIndex :: nat
  frameCount :: nat
  lastFpsTime :: real

definition default_thresholds :: "metric \<Rightarrow> threshold" where
  "default_thresholds m =
     (case m of
        Fps \<Rightarrow> \<lparr>green = 45, yellow = 30\<rparr>
      | Memory \<Rightarrow> \<lparr>green = 300, yellow = 350\<rparr>
      | DrawCalls \<Rightarrow> \<lparr>green = 50, yellow = 80\<rparr>)"

definition VisualProfiler :: "real \<Rightarrow> profiler" where
  \<comment> \<open>The constructor; the argument is what \<open>performance.now()\<close> returns at that moment.\<close>
  "VisualProfiler now =
     \<lparr>thresholds = default_thresholds,
      metrics = \<lparr>fps = 60, frameTime = 1667 / 100, memory = 0, drawCalls = 0,
                 triangles = 0, geometries = 0\<rparr>,
      fpsHistory = replicate 60 60,
      historyIndex = 0,
      frameCount = 0,
      lastFpsTime = now\<rparr>"

definition update :: "profiler \<Rightarrow> profiler" where
  "update p = p\<lparr>frameCount := frameCount p + 1\<rparr>"

definition sampleMetrics :: "real \<Rightarrow> render_info option \<Rightarrow> real option \<Rightarrow> profiler \<Rightarrow> profiler" where
  \<comment> \<open>\<open>now\<close> is \<open>performance.now()\<close>, \<open>info\<close> is \<open>this.renderer?.info\<close>, and \<open>heap\<close> is
     \<open>performance.memory.usedJSHeapSize\<close>, \<open>None\<close> on a host without \<open>performance.memory\<close>.
     The closing \<open>updateUI()\<close> only writes to the page and is left out.\<close>
  "sampleMetrics now info heap p =
     (let elapsed = now - lastFpsTime p;
          p1 = (if elapsed > 0 then
                  (let f = js_round ((real (frameCount p) / elapsed) * 1000) in
                     p\<lparr>metrics := (metrics p)\<lparr>fps := f\<rparr>,
                       frameCount := 0,
                       lastFpsTime := now,
                       fpsHistory := (fpsHistory p)[historyIndex p := f],
                       historyIndex := (historyIndex p + 1) mod 60\<rparr>)
                else p);
          p2 = (case info of
                  Some ri \<Rightarrow>
                    p1\<lparr>metrics := (metrics p1)\<lparr>drawCalls := or0 (calls ri),
                                               triangles := or0 (render_triangles ri),
                                               geometries := or0 (memory_geometries ri)\<rparr>\<rparr>
                | None \<Rightarrow> p1);
          p3 = (case heap of
                  Some used \<Rightarrow> p2\<lparr>metrics := (metrics p2)\<lparr>memory := js_round (used / 1048576)\<rparr>\<rparr>
                | None \<Rightarrow> p2)
      in p3)"

definition getHealth :: "(metric \<Rightarrow> threshold) \<Rightarrow> metric \<Rightarrow> int \<Rightarrow> health" where
  "getHealth ths m v =
     (let t = ths m in
        if m = Fps then
          (if v \<ge> green t then \<lparr>c_class = ''healthy'', i_icon = CheckMark, l_label = ''Excellent''\<rparr>
           else if v \<ge> yellow t then \<lparr>c_class = ''warning'', i_icon = WarningSign, l_label = ''Moderate''\<rparr>
           else \<lparr>c_class = ''critical'', i_icon = CrossMark, l_label = ''Poor''\<rparr>)
        else
          (if v < green t then \<lparr>c_class = ''healthy'', i_icon = CheckMark, l_label = ''Good''\<rparr>
           else if v < yellow t then \<lparr>c_class = ''warning'', i_icon = WarningSign, l_label = ''Warning''\<rparr>
           else \<lparr>c_class = ''critical'', i_icon = CrossMark, l_label = ''Critical''\<rparr>))"

definition drawGraph_samples :: "profiler \<Rightarrow> int list" where
  \<comment> \<open>The values the loop of \<open>drawGraph\<close> reads, in the order it plots them:
     \<open>fpsHistory[(historyIndex + i) % 60]\<close> for \<open>i = 0, ..., 59\<close>.\<close>
  "drawGraph_samples p = map (\<lambda>i. fpsHistory p ! ((historyIndex p + i) mod 60)) [0..<60]"

definition reset :: "profiler \<Rightarrow> profiler" where
  "reset p = p\<lparr>fpsHistory := replicate (length (fpsHistory p)) 60,
               historyIndex := 0,
               frameCount := 0\<rparr>"

text \<open>What happens to a profiler: a rendered frame (\<open>update()\<close>), a tick of the sampling
  timer (\<open>sampleMetrics()\<close>) with what the host reports at that moment, or \<open>reset()\<close>.\<close>

datatype profiler_event =
    Frame
  | Sample real "render_info option" "real option"
  | Reset

fun profiler_step :: "profiler \<Rightarrow> profiler_event \<Rightarrow> profiler" where
  "profiler_step p Frame = update p"
| "profiler_step p (Sample now info heap) = sampleMetrics now info heap p"
| "profiler_step p Reset = reset p"

definition profiler_run :: "profiler \<Rightarrow> profiler_event list \<Rightarrow> profiler" where
  "profiler_run p es = foldl profiler_step p es"

text \<open>The frame rates written into the history by a run, oldest first: a sample writes
  (the rate it has just stored in \<open>metrics.fps\<close>) exactly when time has passed since the
  last one.\<close>

fun history_writes :: "profiler \<Rightarrow> profiler_event list \<Rightarrow> int list" where
  "history_writes p [] = []"
| "history_writes p (Sample now info heap # es) =
     (if now - lastFpsTime p > 0
      then fps (metrics (sampleMetrics now info heap p)) #
           history_writes (sampleMetrics now info heap p) es
      else history_writes (sampleMetrics now info heap p) es)"
| "history_writes p (Frame # es) = history_writes (update p) es"
| "history_writes p (Reset # es) = history_writes (reset p) es"


text \<open>The shape of the history that every operation keeps: sixty slots and a cursor
  inside them.\<close>

definition ring_inv :: "profiler \<Rightarrow> bool" where
  "ring_inv p = (length (fpsHistory p) = 60 \<and> historyIndex p < 60)"

text \<open>An event on a host without \<open>performance.memory\<close>.\<close>

definition heapless :: "profiler_event \<Rightarrow> bool" where
  "heapless e = (case e of Sample now info (Some used) \<Rightarrow> False | _ \<Rightarrow> True)"

text \<open>A test run: sixty-five ticks of the timer, one second apart, the \<open>k\<close>-th after
  \<open>k\<close> rendered frames, so that it measures \<open>k\<close> frames per second.\<close>

definition sixty_five_samples :: "profiler_event list" where
  "sixty_five_samples =
     concat (map (\<lambda>k. replicate k Frame @ [Sample (1000 * real k) None None]) [1..<66])"

section \<open>Strings and regular expressions\<close>

text \<open>
  A JavaScript string is modelled as a \<open>string\<close>, a list of 8-bit characters: the model
  covers the texts whose code units are below 256. The character classes below are the
  ECMAScript ones cut down to that range.
\<close>

definition is_digit :: "char \<Rightarrow> bool" where
  \<comment> \<open>\<open>\d\<close>: \<open>0\<close> to \<open>9\<close>.\<close>
  "is_digit ch = (48 \<le> (of_char ch :: nat) \<and> (of_char ch :: nat) \<le> 57)"

definition is_word :: "char \<Rightarrow> bool" where
  \<comment> \<open>\<open>\w\<close>: letters, digits and the underscore.\<close>
  "is_word ch =
     (let n = (of_char ch :: nat) in
        (48 \<le> n \<and> n \<le> 57) \<or> (65 \<le> n \<and> n \<le> 90) \<or> n = 95 \<or> (97 \<le> n \<and> n \<le> 122))"

definition is_space :: "char \<Rightarrow> bool" where
  \<comment> \<open>\<open>\s\<close>, and what \<open>trim()\<close> strips: tab, line feed, vertical tab, form feed,
     carriage return, space and the no-break space.\<close>
  "is_space ch = (let n = (of_char ch :: nat) in (9 \<le> n \<and> n \<le> 13) \<or> n = 32 \<or> n = 160)"

definition is_line_terminator :: "char \<Rightarrow> bool" where
  "is_line_terminator ch = ((of_char ch :: nat) = 10 \<or> (of_char ch :: nat) = 13)"

definition to_lower :: "char \<Rightarrow> char" where
  \<comment> \<open>Case folding for the flag \<open>i\<close>, on the letters \<open>A\<close> to \<open>Z\<close>.\<close>
  "to_lower ch =
     (let n = (of_char ch :: nat) in if 65 \<le> n \<and> n \<le> 90 then char_of (n + 32) else ch)"

datatype cclass =
    Space      \<comment> \<open>\<open>\s\<close>\<close>
  | Word       \<comment> \<open>\<open>\w\<close>\<close>
  | Digit      \<comment> \<open>\<open>\d\<close>\<close>
  | Dot        \<comment> \<open>\<open>.\<close>: any character but a line terminator\<close>
  | NotSemi    \<comment> \<open>\<open>[^;]\<close>\<close>
  | AnyChar    \<comment> \<open>\<open>[\s\S]\<close>\<close>

fun in_class :: "cclass \<Rightarrow> char \<Rightarrow> bool" where
  "in_class Space ch = is_space ch"
| "in_class Word ch = is_word ch"
| "in_class Digit ch = is_digit ch"
| "in_class Dot ch = (\<not> is_line_terminator ch)"
| "in_class NotSemi ch = (ch \<noteq> CHR '';'')"
| "in_class AnyChar ch = True"

text \<open>The regular expressions the program uses: literal text, a character class under
  a quantifier (greedy or lazy), sequence, alternative, a numbered capture group, and the
  end-of-line assertion \<open>$\<close> of the flag \<open>m\<close>.\<close>

datatype regex =
    Lit string
  | Star cclass
  | Plus cclass
  | StarLazy cclass
  | PlusLazy cclass
  | Seq regex regex
  | Alt regex regex
  | Group nat regex
  | Eps
  | Eol

definition seq :: "regex list \<Rightarrow> regex" where
  "seq rs = foldr Seq rs Eps"

text \<open>The captures of a match: group number and captured text, the latest first.\<close>

type_synonym captures = "(nat \<times> string) list"

text \<open>
  Matching is the backtracking search of ECMAScript, written with a continuation \<open>k\<close> for
  the rest of the expression: a greedy quantifier tries the longest run first and gives
  characters back one at a time while the continuation fails, a lazy one tries the shortest
  run first, and an alternative tries its left side first.
\<close>

fun star_greedy :: "(char \<Rightarrow> bool) \<Rightarrow> (string \<Rightarrow> 'a option) \<Rightarrow> string \<Rightarrow> 'a option" where
  "star_greedy P k [] = k []"
| "star_greedy P k (x # xs) =
     (if P x then (case star_greedy P k xs of Some r \<Rightarrow> Some r | None \<Rightarrow> k (x # xs))
      else k (x # xs))"

fun star_lazy :: "(char \<Rightarrow> bool) \<Rightarrow> (string \<Rightarrow> 'a option) \<Rightarrow> string \<Rightarrow> 'a option" where
  "star_lazy P k [] = k []"
| "star_lazy P k (x # xs) =
     (case k (x # xs) of Some r \<Rightarrow> Some r
      | None \<Rightarrow> if P x then star_lazy P k xs else None)"

fun plus_greedy :: "(char \<Rightarrow> bool) \<Rightarrow> (string \<Rightarrow> 'a option) \<Rightarrow> string \<Rightarrow> 'a option" where
  "plus_greedy P k [] = None"
| "plus_greedy P k (x # xs) = (if P x then star_greedy P k xs else None)"

fun plus_lazy :: "(char \<Rightarrow> bool) \<Rightarrow> (string \<Rightarrow> 'a option) \<Rightarrow> string \<Rightarrow> 'a option" where
  "plus_lazy P k [] = None"
| "plus_lazy P k (x # xs) = (if P x then star_lazy P k xs else None)"

definition lit_prefix :: "bool \<Rightarrow> string \<Rightarrow> string \<Rightarrow> bool" where
  \<comment> \<open>The text starts with the literal; with the flag \<open>i\<close> letters are compared folded.\<close>
  "lit_prefix ci w s =
     (length w \<le> length s \<and>
      (if ci then map to_lower (take (length w) s) = map to_lower w
       else take (length w) s = w))"

primrec rmatch ::
  "bool \<Rightarrow> regex \<Rightarrow> (string \<Rightarrow> captures \<Rightarrow> 'a option) \<Rightarrow> string \<Rightarrow> captures \<Rightarrow> 'a option" where
  "rmatch ci (Lit w) k s c = (if lit_prefix ci w s then k (drop (length w) s) c else None)"
| "rmatch ci (Star cl) k s c = star_greedy (in_class cl) (\<lambda>s'. k s' c) s"
| "rmatch ci (Plus cl) k s c = plus_greedy (in_class cl) (\<lambda>s'. k s' c) s"
| "rmatch ci (StarLazy cl) k s c = star_lazy (in_class cl) (\<lambda>s'. k s' c) s"
| "rmatch ci (PlusLazy cl) k s c = plus_lazy (in_class cl) (\<lambda>s'. k s' c) s"
| "rmatch ci (Seq r1 r2) k s c = rmatch ci r1 (rmatch ci r2 k) s c"
| "rmatch ci (Alt r1 r2) k s c =
     (case rmatch ci r1 k s c of Some r \<Rightarrow> Some r | None \<Rightarrow> rmatch ci r2 k s c)"
| "rmatch ci (Group n r) k s c =
     rmatch ci r (\<lambda>s' c'. k s' ((n, take (length s - length s') s) # c')) s c"
| "rmatch ci Eps k s c = k s c"
| "rmatch ci Eol k s c =
     (case s of [] \<Rightarrow> k s c | x # xs \<Rightarrow> if is_line_terminator x then k s c else None)"

text \<open>\<open>str.match(re)\<close> for an expression without the flag \<open>g\<close>: the match at the leftmost
  position that has one, as its captures, or \<open>None\<close> for \<open>null\<close>.\<close>

fun rx_match :: "bool \<Rightarrow> regex \<Rightarrow> string \<Rightarrow> captures option" where
  "rx_match ci r [] = rmatch ci r (\<lambda>s c. Some c) [] []"
| "rx_match ci r (x # xs) =
     (case rmatch ci r (\<lambda>s c. Some c) (x # xs) [] of
        Some c \<Rightarrow> Some c
      | None \<Rightarrow> rx_match ci r xs)"

definition group :: "captures \<Rightarrow> nat \<Rightarrow> string" where
  \<comment> \<open>\<open>match[n]\<close>. Every group of the expressions below takes part in each of their
     matches, so the lookup finds it.\<close>
  "group c n = (case map_of c n of Some s \<Rightarrow> s | None \<Rightarrow> [])"

text \<open>\<open>str.replace(re, '''')\<close> for an expression with the flag \<open>g\<close>: every match, found
  from left to right, is cut out; after an empty match the scan moves on by one character.\<close>

fun rx_delete_all :: "bool \<Rightarrow> regex \<Rightarrow> string \<Rightarrow> string" where
  "rx_delete_all ci r [] = []"
| "rx_delete_all ci r (x # xs) =
     (case rmatch ci r (\<lambda>s c. Some s) (x # xs) [] of
        Some rest \<Rightarrow>
          if length rest < length (x # xs) then rx_delete_all ci r rest
          else x # rx_delete_all ci r xs
      | None \<Rightarrow> x # rx_delete_all ci r xs)"

definition trim :: "string \<Rightarrow> string" where
  "trim s = rev (dropWhile is_space (rev (dropWhile is_space s)))"

definition digit_value :: "char \<Rightarrow> int" where
  "digit_value ch = int (of_char ch) - 48"

definition parseInt10 :: "string \<Rightarrow> int" where
  \<comment> \<open>\<open>parseInt(s, 10)\<close> on a text that starts with a digit, as every \<open>(\d+)\<close> capture does:
     the value of its leading digits. The program holds it as a double, which is this
     integer below \<open>2 ^ 53\<close> and the double nearest to it from there on, where adding 1
     may change nothing; any such value is above the cap \<open>maxTreeLimit\<close>.\<close>
  "parseInt10 s = foldl (\<lambda>a ch. 10 * a + digit_value ch) 0 (takeWhile is_digit s)"

definition digit_char :: "nat \<Rightarrow> char" where
  "digit_char d = char_of (48 + d)"

fun decimal :: "nat \<Rightarrow> string" where
  \<comment> \<open>A natural number written out, as \<open>String(n)\<close> and a template literal do.\<close>
  "decimal n = (if n < 10 then [digit_char n] else decimal (n div 10) @ [digit_char (n mod 10)])"

section \<open>CodeExecutor: the parameter extractor\<close>

datatype pattern = While | For | Assignment

text \<open>
  The messages of the extractor, by their templates (the pictographs that open some of
  them are left out):
  \<^item> \<open>CappedAt n\<close>: ``Capped at n trees for safety'';
  \<^item> \<open>SafetyCap n\<close>: ``Safety cap: spawning n trees'';
  \<^item> \<open>WhileFalse\<close>: ``'while (false)' spawns 0 trees'';
  \<^item> \<open>InfiniteLoop\<close>: ``'while (true)' = infinite loop!'';
  \<^item> \<open>CantParse c\<close>: ``Can't parse: "c"''; \<open>TryHint\<close>: ``Try: treeCount < 50'';
  \<^item> \<open>NoLoopFound\<close>: ``Couldn't find a loop or tree count.'';
    \<open>AddHint\<close>: ``Add: while (treeCount < 50)'';
  \<^item> \<open>Perf500\<close>: ``500+ trees: Expect <20 FPS on Chromebook'';
    \<open>Perf300\<close>: ``300+ trees: FPS will drop to ~30'';
    \<open>Perf175\<close>: ``175+ trees: FPS may drop below 45'';
    \<open>PerfGood\<close>: ``Good choice! Should run at 60 FPS'';
  \<^item> \<open>RuntimeError e\<close>: ``Runtime error: '' followed by the message of the exception.
\<close>

datatype message =
    CappedAt int
  | SafetyCap int
  | WhileFalse
  | InfiniteLoop
  | CantParse string
  | TryHint
  | NoLoopFound
  | AddHint
  | Perf500
  | Perf300
  | Perf175
  | PerfGood
  | RuntimeError js_error

record parse_result =
  valid :: bool
  limit :: "int option"
  condition :: "string option"
  pattern :: "pattern option"
  errors :: "message list"
  warnings :: "message list"

definition maxTreeLimit :: int where
  "maxTreeLimit = 1000"

definition strip_line_re :: regex where
  \<comment> \<open>\<open>/\/\/.*$/gm\<close>\<close>
  "strip_line_re = seq [Lit ''//'', Star Dot, Eol]"

definition strip_block_re :: regex where
  \<comment> \<open>\<open>/\/\*[\s\S]*?\*\//g\<close>\<close>
  "strip_block_re = seq [Lit ''/*'', StarLazy AnyChar, Lit ''*/'']"

definition stripComments :: "string \<Rightarrow> string" where
  "stripComments code = rx_delete_all False strip_block_re (rx_delete_all False strip_line_re code)"

definition lt_re :: regex where
  \<comment> \<open>\<open>/\w+\s*<\s*(\d+)/\<close>\<close>
  "lt_re = seq [Plus Word, Star Space, Lit ''<'', Star Space, Group 1 (Plus Digit)]"

definition le_re :: regex where
  \<comment> \<open>\<open>/\w+\s*<=\s*(\d+)/\<close>\<close>
  "le_re = seq [Plus Word, Star Space, Lit ''<='', Star Space, Group 1 (Plus Digit)]"

definition gt_re :: regex where
  \<comment> \<open>\<open>/(\d+)\s*>\s*\w+/\<close>\<close>
  "gt_re = seq [Group 1 (Plus Digit), Star Space, Lit ''>'', Star Space, Plus Word]"

definition ge_re :: regex where
  \<comment> \<open>\<open>/(\d+)\s*>=\s*\w+/\<close>\<close>
  "ge_re = seq [Group 1 (Plus Digit), Star Space, Lit ''>='', Star Space, Plus Word]"

definition ne_re :: regex where
  \<comment> \<open>\<open>/\w+\s*!=\s*(\d+)/\<close>\<close>
  "ne_re = seq [Plus Word, Star Space, Lit ''!='', Star Space, Group 1 (Plus Digit)]"

definition extractLimitFromCondition :: "string \<Rightarrow> int option" where
  "extractLimitFromCondition cond =
     (case rx_match False lt_re cond of
        Some m \<Rightarrow> Some (parseInt10 (group m 1))
      | None \<Rightarrow>
     (case rx_match False le_re cond of
        Some m \<Rightarrow> Some (parseInt10 (group m 1) + 1)
      | None \<Rightarrow>
     (case rx_match False gt_re cond of
        Some m \<Rightarrow> Some (parseInt10 (group m 1))
      | None \<Rightarrow>
     (case rx_match False ge_re cond of
        Some m \<Rightarrow> Some (parseInt10 (group m 1) + 1)
      | None \<Rightarrow>
     (case rx_match False ne_re cond of
        Some m \<Rightarrow> Some (parseInt10 (group m 1))
      | None \<Rightarrow> None)))))"

definition addPerformanceWarnings :: "parse_result \<Rightarrow> parse_result" where
  \<comment> \<open>\<open>!result.limit\<close> holds for \<open>null\<close> and for \<open>0\<close>.\<close>
  "addPerformanceWarnings result =
     (case limit result of
        None \<Rightarrow> result
      | Some n \<Rightarrow>
          if n = 0 then result
          else if n > 500 then result\<lparr>warnings := warnings result @ [Perf500]\<rparr>
          else if n > 300 then result\<lparr>warnings := warnings result @ [Perf300]\<rparr>
          else if n > 175 then result\<lparr>warnings := warnings result @ [Perf175]\<rparr>
          else if n \<le> 50 then result\<lparr>warnings := warnings result @ [PerfGood]\<rparr>
          else result)"

definition while_re :: regex where
  \<comment> \<open>\<open>/while\s*\(\s*(.+?)\s*\)/\<close>\<close>
  "while_re = seq [Lit ''while'', Star Space, Lit ''('', Star Space, Group 1 (PlusLazy Dot),
                   Star Space, Lit '')'']"

definition for_re :: regex where
  \<comment> \<open>\<open>/for\s*\([^;]+;\s*\w+\s*(<|<=)\s*(\d+)/\<close>\<close>
  "for_re = seq [Lit ''for'', Star Space, Lit ''('', Plus NotSemi, Lit '';'', Star Space,
                 Plus Word, Star Space, Group 1 (Alt (Lit ''<'') (Lit ''<='')), Star Space,
                 Group 2 (Plus Digit)]"

definition assign_re :: regex where
  \<comment> \<open>\<open>/(maxTrees|treeCount|count)\s*=\s*(\d+)/i\<close>\<close>
  "assign_re = seq [Group 1 (Alt (Lit ''maxTrees'') (Alt (Lit ''treeCount'') (Lit ''count''))),
                    Star Space, Lit ''='', Star Space, Group 2 (Plus Digit)]"

definition parseStudentCode :: "string \<Rightarrow> parse_result" where
  "parseStudentCode code =
     (let result = \<lparr>valid = False, limit = None, condition = None, pattern = None,
                    errors = [], warnings = []\<rparr>;
          cleanCode = stripComments code
      in
      case rx_match False while_re cleanCode of
        Some whileMatch \<Rightarrow>
          (let cond = trim (group whileMatch 1);
               result1 = result\<lparr>condition := Some cond, pattern := Some While\<rparr>;
               result2 =
                 (case extractLimitFromCondition cond of
                    Some lmt \<Rightarrow>
                      (let result3 = result1\<lparr>limit := Some (min lmt maxTreeLimit), valid := True\<rparr>
                       in if lmt > maxTreeLimit
                          then result3\<lparr>warnings := warnings result3 @ [CappedAt maxTreeLimit]\<rparr>
                          else result3)
                  | None \<Rightarrow>
                      if cond = ''true'' then
                        result1\<lparr>limit := Some maxTreeLimit, valid := True,
                                errors := errors result1 @ [InfiniteLoop],
                                warnings := warnings result1 @ [SafetyCap maxTreeLimit]\<rparr>
                      else if cond = ''false'' then
                        result1\<lparr>limit := Some 0, valid := True,
                                warnings := warnings result1 @ [WhileFalse]\<rparr>
                      else
                        result1\<lparr>errors := errors result1 @ [CantParse cond, TryHint]\<rparr>)
           in addPerformanceWarnings result2)
      | None \<Rightarrow>
      (case rx_match False for_re cleanCode of
        Some forMatch \<Rightarrow>
          (let op = group forMatch 1;
               parsed = parseInt10 (group forMatch 2);
               lmt = (if op = ''<='' then parsed + 1 else parsed)
           in addPerformanceWarnings
                (result\<lparr>pattern := Some For,
                        limit := Some (min lmt maxTreeLimit),
                        condition := Some (''i '' @ op @ '' '' @ group forMatch 2),
                        valid := True\<rparr>))
      | None \<Rightarrow>
      (case rx_match True assign_re cleanCode of
        Some assignMatch \<Rightarrow>
          addPerformanceWarnings
            (result\<lparr>pattern := Some Assignment,
                    limit := Some (min (parseInt10 (group assignMatch 2)) maxTreeLimit),
                    condition := Some (group assignMatch 1 @ '' = '' @ group assignMatch 2),
                    valid := True\<rparr>)
      | None \<Rightarrow>
          result\<lparr>errors := errors result @ [NoLoopFound, AddHint]\<rparr>)))"

section \<open>SceneController: the population of trees\<close>

text \<open>
  The objects of the graphics library are modelled as far as \<open>spawnTrees\<close> touches them.
  An instanced mesh draws all its instances in one draw call; it owns a geometry and a
  material, which \<open>dispose()\<close> releases, a number of instances and one matrix per instance.
  The matrix that \<open>dummy.updateMatrix()\<close> composes is kept as the position, the uniform
  scale and the rotation about the vertical axis it is composed from; a slot of
  \<open>instanceMatrix\<close> that \<open>setMatrixAt\<close> has never written is \<open>None\<close>.
\<close>

record matrix4 =
  position_x :: real
  position_y :: real
  position_z :: real
  scale :: real
  rotation_y :: real

datatype geometry =
    CylinderGeometry real real real nat
  | ConeGeometry real real nat

datatype material = MeshLambertMaterial int

record instanced_mesh =
  geometry :: geometry
  geometry_disposed :: bool
  material :: material
  material_disposed :: bool
  count :: nat
  instanceMatrix :: "matrix4 option list"
  needsUpdate :: bool

text \<open>The objects live in a store and are referred to by their index in it, since the
  scene and the controller hold references to the same meshes. Lights, the ground and the
  grid are the other objects of the scene.\<close>

datatype object3d =
    Instanced instanced_mesh
  | Other string

record scene_controller =
  objects :: "object3d list"
  children :: "nat list"
  treeInstancedMesh :: "(nat \<times> nat) option"
  currentTreeCount :: int

definition SceneController :: scene_controller where
  \<comment> \<open>The constructor, with the empty scene that \<open>init()\<close> creates.\<close>
  "SceneController =
     \<lparr>objects = [], children = [], treeInstancedMesh = None, currentTreeCount = 25\<rparr>"

definition new_InstancedMesh :: "geometry \<Rightarrow> material \<Rightarrow> int \<Rightarrow> js_error + instanced_mesh" where
  \<comment> \<open>\<open>new THREE.InstancedMesh(geometry, material, count)\<close>. The library allocates
     \<open>new Float32Array(count * 16)\<close> for the matrices, which raises a \<open>RangeError\<close> when
     the length is negative. It also raises one when the host cannot hold an array of that
     length; where that limit lies depends on the host, and the model leaves it out: it
     takes every allocation of a non-negative length to succeed, which is so for the
     counts up to 1000 that \<open>CodeExecutor\<close> hands over.\<close>
  "new_InstancedMesh g m n =
     (if n < 0 then Inl RangeError
      else Inr \<lparr>geometry = g, geometry_disposed = False, material = m, material_disposed = False,
                count = nat n, instanceMatrix = replicate (nat n) None, needsUpdate = False\<rparr>)"

definition setMatrixAt :: "nat \<Rightarrow> matrix4 \<Rightarrow> instanced_mesh \<Rightarrow> instanced_mesh" where
  "setMatrixAt i m mesh = mesh\<lparr>instanceMatrix := (instanceMatrix mesh)[i := Some m]\<rparr>"

definition dispose :: "instanced_mesh \<Rightarrow> instanced_mesh" where
  \<comment> \<open>\<open>mesh.geometry.dispose(); mesh.material.dispose()\<close>\<close>
  "dispose mesh = mesh\<lparr>geometry_disposed := True, material_disposed := True\<rparr>"

definition dispose_at :: "nat \<Rightarrow> object3d list \<Rightarrow> object3d list" where
  "dispose_at i objs =
     (if i < length objs
      then (case objs ! i of Instanced mesh \<Rightarrow> objs[i := Instanced (dispose mesh)] | Other x \<Rightarrow> objs)
      else objs)"

definition scene_remove :: "nat \<Rightarrow> scene_controller \<Rightarrow> scene_controller" where
  \<comment> \<open>\<open>this.scene.remove(object)\<close>\<close>
  "scene_remove i st = st\<lparr>children := remove1 i (children st)\<rparr>"

definition scene_add :: "nat \<Rightarrow> scene_controller \<Rightarrow> scene_controller" where
  \<comment> \<open>\<open>this.scene.add(object)\<close>, for an object that has no parent yet\<close>
  "scene_add i st = st\<lparr>children := children st @ [i]\<rparr>"

definition cleanup :: "scene_controller \<Rightarrow> scene_controller" where
  \<comment> \<open>The block ``Cleanup existing'' of \<open>spawnTrees\<close>.\<close>
  "cleanup st =
     (case treeInstancedMesh st of
        None \<Rightarrow> st
      | Some (trunk, foliage) \<Rightarrow>
          (let st1 = scene_remove foliage (scene_remove trunk st)
           in st1\<lparr>objects := dispose_at foliage (dispose_at trunk (objects st1))\<rparr>))"

definition spreadRadius :: real where
  "spreadRadius = 45"

definition Math_PI :: real where
  \<comment> \<open>The double nearest to \<open>\<pi>\<close>.\<close>
  "Math_PI = 884279719003555 / 281474976710656"

definition trunk_matrix :: "(nat \<Rightarrow> real) \<Rightarrow> nat \<Rightarrow> matrix4" where
  \<comment> \<open>The matrix of trunk \<open>i\<close>. \<open>rnd k\<close> is what the \<open>k\<close>-th call of \<open>Math.random()\<close>
     during this \<open>spawnTrees\<close> returns; round \<open>i\<close> of the loop makes the calls \<open>4 i\<close> to
     \<open>4 i + 3\<close>, for \<open>x\<close>, \<open>z\<close>, \<open>scale\<close> and \<open>rotation\<close>.\<close>
  "trunk_matrix rnd i =
     \<lparr>position_x = (rnd (4 * i) - 1 / 2) * spreadRadius * 2,
      position_y = 1,
      position_z = (rnd (4 * i + 1) - 1 / 2) * spreadRadius * 2,
      scale = 7 / 10 + rnd (4 * i + 2) * (6 / 10),
      rotation_y = rnd (4 * i + 3) * Math_PI * 2\<rparr>"

definition foliage_matrix :: "(nat \<Rightarrow> real) \<Rightarrow> nat \<Rightarrow> matrix4" where
  \<comment> \<open>The same placement, lifted to \<open>3.5 * scale\<close>.\<close>
  "foliage_matrix rnd i =
     (trunk_matrix rnd i)\<lparr>position_y := 35 / 10 * scale (trunk_matrix rnd i)\<rparr>"

definition place_tree ::
  "(nat \<Rightarrow> real) \<Rightarrow> nat \<Rightarrow> instanced_mesh \<times> instanced_mesh \<Rightarrow> instanced_mesh \<times> instanced_mesh" where
  \<comment> \<open>One round of the loop.\<close>
  "place_tree rnd i tf =
     (setMatrixAt i (trunk_matrix rnd i) (fst tf), setMatrixAt i (foliage_matrix rnd i) (snd tf))"

definition build_batches ::
  "int \<Rightarrow> (nat \<Rightarrow> real) \<Rightarrow> js_error + (instanced_mesh \<times> instanced_mesh)" where
  \<comment> \<open>From the geometries down to the two \<open>needsUpdate = true\<close>: the two meshes are
     allocated and every index below \<open>count\<close> is given its matrices.\<close>
  "build_batches n rnd =
     (case new_InstancedMesh (CylinderGeometry (3 / 10) (5 / 10) 2 6) (MeshLambertMaterial 0x8B4513) n of
        Inl e \<Rightarrow> Inl e
      | Inr trunkInstanced \<Rightarrow>
     (case new_InstancedMesh (ConeGeometry (15 / 10) 4 6) (MeshLambertMaterial 0x228B22) n of
        Inl e \<Rightarrow> Inl e
      | Inr foliageInstanced \<Rightarrow>
          (let tf = fold (place_tree rnd) [0..<nat n] (trunkInstanced, foliageInstanced)
           in Inr ((fst tf)\<lparr>needsUpdate := True\<rparr>, (snd tf)\<lparr>needsUpdate := True\<rparr>))))"

text \<open>
  \<open>spawnTrees\<close>, statement by statement: the states it goes through, the last of which is
  the state it leaves, and the exception it ends with, if any. The meshes enter the store
  when they are built; the scene, the field \<open>treeInstancedMesh\<close> and the count follow in
  the order of the source.
\<close>

definition spawnTrees_trace ::
  "int \<Rightarrow> (nat \<Rightarrow> real) \<Rightarrow> scene_controller \<Rightarrow> scene_controller list \<times> js_error option" where
  "spawnTrees_trace n rnd st =
     (let s1 = cleanup st in
      case build_batches n rnd of
        Inl e \<Rightarrow> ([s1], Some e)
      | Inr (trunkInstanced, foliageInstanced) \<Rightarrow>
          (let trunk = length (objects s1);
               foliage = length (objects s1) + 1;
               s2 = s1\<lparr>objects := objects s1 @ [Instanced trunkInstanced, Instanced foliageInstanced]\<rparr>;
               s3 = scene_add trunk s2;
               s4 = scene_add foliage s3;
               s5 = s4\<lparr>treeInstancedMesh := Some (trunk, foliage)\<rparr>;
               s6 = s5\<lparr>currentTreeCount := n\<rparr>
           in ([s1, s2, s3, s4, s5, s6], None)))"

definition spawnTrees ::
  "int \<Rightarrow> (nat \<Rightarrow> real) \<Rightarrow> scene_controller \<Rightarrow> js_error option \<times> scene_controller" where
  "spawnTrees n rnd st =
     (case spawnTrees_trace n rnd st of (states, err) \<Rightarrow> (err, last states))"

definition is_instanced :: "object3d list \<Rightarrow> nat \<Rightarrow> bool" where
  "is_instanced objs i = (i < length objs \<and> (case objs ! i of Instanced mesh \<Rightarrow> True | Other x \<Rightarrow> False))"

definition mesh_at :: "object3d list \<Rightarrow> nat \<Rightarrow> instanced_mesh option" where
  "mesh_at objs i =
     (if i < length objs then (case objs ! i of Instanced mesh \<Rightarrow> Some mesh | Other x \<Rightarrow> None)
      else None)"

definition population_batches :: "scene_controller \<Rightarrow> nat list" where
  \<comment> \<open>The instanced meshes in the scene. Each is one draw submission: ``renders ALL trees
     in 2 draw calls'', as the source puts it.\<close>
  "population_batches st = filter (is_instanced (objects st)) (children st)"

definition populationDrawCalls :: "scene_controller \<Rightarrow> nat" where
  "populationDrawCalls st = length (population_batches st)"

definition batch_built :: "nat \<Rightarrow> instanced_mesh \<Rightarrow> bool" where
  \<comment> \<open>A batch of \<open>n\<close> instances, live, with every matrix set.\<close>
  "batch_built n mesh =
     (count mesh = n \<and> length (instanceMatrix mesh) = n \<and> list_all (\<lambda>m. m \<noteq> None) (instanceMatrix mesh)
      \<and> \<not> geometry_disposed mesh \<and> \<not> material_disposed mesh \<and> needsUpdate mesh)"

definition well_placed :: "matrix4 option \<Rightarrow> bool" where
  \<comment> \<open>A slot of \<open>instanceMatrix\<close> that holds the matrix of a tree that can be seen: written,
     above the ground and so off the origin, of a scale between 0.7 and 1.3, within the
     spread radius.\<close>
  "well_placed slot =
     (case slot of
        None \<Rightarrow> False
      | Some m \<Rightarrow>
          0 < position_y m \<and> 7 / 10 \<le> scale m \<and> scale m < 13 / 10
        \<and> - spreadRadius \<le> position_x m \<and> position_x m < spreadRadius
        \<and> - spreadRadius \<le> position_z m \<and> position_z m < spreadRadius)"

definition population_built :: "nat \<Rightarrow> scene_controller \<Rightarrow> bool" where
  \<comment> \<open>The field \<open>treeInstancedMesh\<close> refers to two different built batches of \<open>n\<close>
     instances, and they are the instanced meshes of the scene.\<close>
  "population_built n st =
     (case treeInstancedMesh st of
        None \<Rightarrow> False
      | Some (trunk, foliage) \<Rightarrow>
          trunk \<noteq> foliage \<and> population_batches st = [trunk, foliage]
          \<and> (case mesh_at (objects st) trunk of None \<Rightarrow> False | Some mesh \<Rightarrow> batch_built n mesh)
          \<and> (case mesh_at (objects st) foliage of None \<Rightarrow> False | Some mesh \<Rightarrow> batch_built n mesh))"

definition scene_inv :: "scene_controller \<Rightarrow> bool" where
  \<comment> \<open>What the constructor establishes and every \<open>spawnTrees\<close> keeps, also one that ends
     with an exception: the children of the scene are objects of the store, and the
     instanced meshes among them are the two that \<open>treeInstancedMesh\<close> refers to, or none.\<close>
  "scene_inv st =
     (list_all (\<lambda>i. i < length (objects st)) (children st)
      \<and> (case treeInstancedMesh st of
            None \<Rightarrow> population_batches st = []
          | Some (trunk, foliage) \<Rightarrow>
              trunk \<noteq> foliage
            \<and> is_instanced (objects st) trunk \<and> is_instanced (objects st) foliage
            \<and> (population_batches st = [trunk, foliage] \<or> population_batches st = [])))"

definition spawn_all :: "(int \<times> (nat \<Rightarrow> real)) list \<Rightarrow> scene_controller \<Rightarrow> scene_controller" where
  \<comment> \<open>A series of calls of \<open>spawnTrees\<close>, each with its count and its random numbers,
     whether they end with an exception or not.\<close>
  "spawn_all cs st = foldl (\<lambda>s c. snd (spawnTrees (fst c) (snd c) s)) st cs"

section \<open>CodeExecutor: applying the parsed limit\<close>

text \<open>The result of \<open>execute\<close> and the state of the executor. The frame rates before and
  after, which a timer fills in, and the time stamps of the history are left out.\<close>

record exec_result =
  success :: bool
  treeCount :: int
  previousCount :: int
  exec_errors :: "message list"
  exec_warnings :: "message list"

record code_executor =
  lastResult :: "exec_result option"
  history :: "int list"

definition CodeExecutor :: code_executor where
  "CodeExecutor = \<lparr>lastResult = None, history = []\<rparr>"

definition requested_count :: "string \<Rightarrow> int option" where
  \<comment> \<open>The count that \<open>execute\<close> hands to \<open>spawnTrees\<close>: none when
     \<open>!parsed.valid || parsed.limit === null\<close>.\<close>
  "requested_count code =
     (let parsed = parseStudentCode code in if valid parsed then limit parsed else None)"

definition execute ::
  "string \<Rightarrow> (nat \<Rightarrow> real) \<Rightarrow> code_executor \<Rightarrow> scene_controller
     \<Rightarrow> exec_result \<times> code_executor \<times> scene_controller" where
  "execute code rnd ex sc =
     (let parsed = parseStudentCode code;
          execResult = \<lparr>success = False, treeCount = 0, previousCount = currentTreeCount sc,
                        exec_errors = errors parsed, exec_warnings = warnings parsed\<rparr>
      in case requested_count code of
           None \<Rightarrow> (execResult, ex, sc)
         | Some lmt \<Rightarrow>
             (let ex1 = ex\<lparr>history := history ex @ [previousCount execResult]\<rparr> in
              case spawnTrees lmt rnd sc of
                (None, sc') \<Rightarrow>
                  (let r = execResult\<lparr>success := True, treeCount := lmt\<rparr>
                   in (r, ex1\<lparr>lastResult := Some r\<rparr>, sc'))
              | (Some err, sc') \<Rightarrow>
                  (execResult\<lparr>exec_errors := exec_errors execResult @ [RuntimeError err]\<rparr>,
                   ex1, sc')))"

definition quickRun ::
  "nat \<Rightarrow> (nat \<Rightarrow> real) \<Rightarrow> code_executor \<Rightarrow> scene_controller
     \<Rightarrow> exec_result \<times> code_executor \<times> scene_controller" where
  "quickRun n = execute (''while (treeCount < '' @ decimal n @ '') { }'')"

text \<open>A scene with two trees, for the examples.\<close>

definition two_trees :: scene_controller where
  "two_trees = snd (spawnTrees 2 (\<lambda>k. 1 / 2) SceneController)"

section \<open>Scenario and InfiniteForest: validation and completion\<close>

text \<open>
  \<open>InfiniteForest\<close> extends the base class \<open>Scenario\<close>. The object is a record of the fields
  that \<open>validate\<close>, \<open>checkCompletion\<close>, \<open>complete\<close> and \<open>onComplete\<close> read or write; what
  lies outside the object (the progress of the \<open>ScenarioManager\<close>, the global
  \<open>ProgressTracker\<close>, the console of the code editor) is the record \<open>world\<close>. Each function
  takes the value of \<open>Date.now()\<close> as an argument and returns the exception it ends with,
  if any, beside the state it leaves.
\<close>

definition or_default :: "int option \<Rightarrow> int \<Rightarrow> int" where
  \<comment> \<open>\<open>x || d\<close> for a number \<open>x\<close> that may be missing: \<open>undefined\<close>, \<open>null\<close> and \<open>0\<close> are
     falsy and give \<open>d\<close>.\<close>
  "or_default x d = (case x of None \<Rightarrow> d | Some n \<Rightarrow> if n = 0 then d else n)"

definition to_number :: "int option \<Rightarrow> int" where
  \<comment> \<open>A field that may hold \<open>null\<close>, as an operand of \<open>-\<close>: \<open>null\<close> counts as \<open>0\<close>.\<close>
  "to_number x = (case x of None \<Rightarrow> 0 | Some n \<Rightarrow> n)"

datatype lifecycle = Idle | Broken | Inspecting | Fixed | Complete

record acceptable_range =
  range_min :: "int option"
  range_max :: "int option"

text \<open>\<open>this.validation\<close>: the thresholds of the scenario definition. Every part may be
  missing, as the optional chaining of \<open>validate\<close> allows.\<close>

record validation =
  targetFPS :: "int option"
  acceptableRange :: "acceptable_range option"

text \<open>The fallback values \<open>this._defaults\<close> that \<open>validate\<close> reads.\<close>

definition defaults_targetFPS :: int where
  "defaults_targetFPS = 45"

definition defaults_min :: int where
  "defaults_min = 10"

definition defaults_max :: int where
  "defaults_max = 175"

record checkpoint =
  reached :: bool
  timestamp :: int
  elapsed :: int

text \<open>\<open>this.session\<close> of \<open>InfiniteForest\<close>; \<open>checkpoints\<close> is the object used as a map from
  checkpoint names, in the order of insertion. The history \<open>codeEdits\<close> is left out.\<close>

record session =
  attempts :: int
  hintsShown :: int
  hintsRevealed :: "int list"
  startTime :: "int option"
  checkpoints :: "(string \<times> checkpoint) list"
  completed :: bool
  fpsBefore :: "int option"
  fpsAfter :: "int option"

text \<open>\<open>this.metrics\<close> of the base class.\<close>

record scenario_metrics =
  metrics_fpsBefore :: "int option"
  metrics_fpsAfter :: "int option"
  codeChanges :: int
  hintsUsed :: int

text \<open>The completion record that \<open>complete\<close> hands to the callback \<open>onComplete\<close>.\<close>

record completion_event =
  ev_scenario :: string
  ev_success :: bool
  ev_duration :: int
  ev_attempts :: int
  ev_metrics :: scenario_metrics

text \<open>
  The functions that the repository assigns to the property \<open>onComplete\<close> of a scenario:
  the arrow function of \<open>ScenarioManager.loadScenario\<close>,
  \<open>(event) => this._onScenarioComplete(event)\<close>, and the wrapper of
  \<open>ScenarioUIIntegration._hookScenarioEvents\<close>, \<open>() => { originalOnComplete();
  this._showSuccess(); }\<close>, around the value that the property held before.
\<close>

datatype callback = ManagerCallback | UIWrapper callback

record success_stats =
  stats_fpsBefore :: int
  stats_fpsAfter :: int
  stats_improvement :: int
  stats_attempts :: int
  stats_time :: int
  stats_hintsUsed :: int

datatype overlay = Hidden | Shown success_stats

text \<open>
  The scenario object. \<open>onComplete\<close> is the own property of that name, \<open>None\<close> for \<open>null\<close>:
  the constructor of \<open>Scenario\<close>, which \<open>super(...)\<close> runs on every \<open>InfiniteForest\<close>,
  assigns \<open>this.onComplete = null\<close>, so that the object always has this property and a
  lookup of \<open>this.onComplete\<close> finds it and never reaches the method \<open>onComplete()\<close> that the
  class \<open>InfiniteForest\<close> declares on its prototype. \<open>onStateChange\<close> tells whether the
  manager has installed its listener. The class has two counters of attempts and two start
  times, \<open>this.attempts\<close>, \<open>this.startTime\<close> (here \<open>base_attempts\<close>, \<open>base_startTime\<close>) and
  those of the session. \<open>hintButton\<close> and \<open>successOverlay\<close> are the elements of the page,
  \<open>None\<close> before \<open>init\<close> has made them; the inspector button is left out.
\<close>

record scenario =
  scenario_id :: string
  validation :: "validation option"
  state :: lifecycle
  base_attempts :: int
  base_startTime :: "int option"
  completionTime :: "int option"
  base_metrics :: scenario_metrics
  onStateChange :: bool
  onComplete :: "callback option"
  session :: session
  hintTimers :: "nat list"
  hintButton :: "bool option"
  successOverlay :: "overlay option"

datatype feedback =
    StillTooManyTrees int int
  | FpsTooLow int int
  | LooksEmpty int
  | StillSomeLag int int
  | StoryFailure

datatype log_text = Feedback feedback | CompletedIn int int | Achievement int int

datatype log_level = LogWarning | LogSuccess

text \<open>
  What lies outside the scenario: \<open>progress.completed\<close> and \<open>progress.totalTime\<close> of the
  \<open>ScenarioManager\<close>; the calls \<open>markComplete(userId, id, score)\<close> that
  \<open>window.ProgressTracker\<close> has received; the user id that
  \<open>window.AuthManager.getCurrentUser()\<close> gives (\<open>None\<close> also when the tracker or the manager
  of accounts is missing); the lines logged to the code editor; the states that the
  listener of the manager has seen; and the number of success dialogues that
  \<open>ScenarioUIIntegration\<close> has shown.
\<close>

record world =
  progress_completed :: "string list"
  progress_totalTime :: int
  tracker_calls :: "(string \<times> string \<times> int) list"
  current_user :: "string option"
  editor_log :: "(log_level \<times> log_text) list"
  state_changes :: "lifecycle list"
  success_dialogues :: nat

definition Scenario :: scenario where
  \<comment> \<open>The constructor of the base class, with the session of \<open>InfiniteForest\<close> not yet set.\<close>
  "Scenario =
     \<lparr>scenario_id = ''base'',
      validation = Some \<lparr>targetFPS = Some 45, acceptableRange = None\<rparr>,
      state = Idle, base_attempts = 0, base_startTime = None, completionTime = None,
      base_metrics = \<lparr>metrics_fpsBefore = None, metrics_fpsAfter = None,
                       codeChanges = 0, hintsUsed = 0\<rparr>,
      onStateChange = False, onComplete = None,
      session = \<lparr>attempts = 0, hintsShown = 0, hintsRevealed = [], startTime = None,
                  checkpoints = [], completed = False, fpsBefore = None, fpsAfter = None\<rparr>,
      hintTimers = [], hintButton = None, successOverlay = None\<rparr>"

definition InfiniteForest :: scenario where
  \<comment> \<open>The constructor: \<open>super(...)\<close>, then the fields of the subclass.\<close>
  "InfiniteForest =
     Scenario\<lparr>scenario_id := ''infinite-forest'',
       session := \<lparr>attempts = 0, hintsShown = 0, hintsRevealed = [], startTime = None,
                    checkpoints = [], completed = False, fpsBefore = None, fpsAfter = None\<rparr>\<rparr>"

definition loadScenario_callbacks :: "scenario \<Rightarrow> scenario" where
  \<comment> \<open>\<open>ScenarioManager.loadScenario\<close>, after \<open>new ScenarioClass(...)\<close>: ``Set up callbacks''.\<close>
  "loadScenario_callbacks s = s\<lparr>onStateChange := True, onComplete := Some ManagerCallback\<rparr>"

definition hookScenarioEvents :: "scenario \<Rightarrow> js_error + scenario" where
  \<comment> \<open>\<open>ScenarioUIIntegration._hookScenarioEvents\<close>, the part on \<open>onComplete\<close>:
     \<open>this.scenario.onComplete.bind(this.scenario)\<close> is a \<open>TypeError\<close> when the property
     holds \<open>null\<close>.\<close>
  "hookScenarioEvents s =
     (case onComplete s of
        None \<Rightarrow> Inl TypeError
      | Some cb \<Rightarrow> Inr (s\<lparr>onComplete := Some (UIWrapper cb)\<rparr>))"

definition ScenarioManager_onScenarioComplete ::
    "completion_event option \<Rightarrow> world \<Rightarrow> js_error option \<times> world" where
  \<comment> \<open>\<open>_onScenarioComplete(event)\<close>. Called without an argument, \<open>event\<close> is \<open>undefined\<close> and
     \<open>event.success\<close> is a \<open>TypeError\<close>.\<close>
  "ScenarioManager_onScenarioComplete event w =
     (case event of
        None \<Rightarrow> (Some TypeError, w)
      | Some ev \<Rightarrow>
          let w1 = (if ev_success ev \<and> ev_scenario ev \<notin> set (progress_completed w)
                    then w\<lparr>progress_completed := progress_completed w @ [ev_scenario ev]\<rparr>
                    else w);
              w2 = w1\<lparr>progress_totalTime := progress_totalTime w1 + ev_duration ev\<rparr>
          in (None, w2\<lparr>editor_log := editor_log w2
                 @ [(LogSuccess, Achievement (js_round (real_of_int (ev_duration ev) / 1000))
                                             (ev_attempts ev))]\<rparr>))"

fun call_onComplete :: "callback \<Rightarrow> completion_event option \<Rightarrow> world \<Rightarrow> js_error option \<times> world" where
  \<comment> \<open>A call of the function that the property holds, with the argument of the call
     (\<open>None\<close> when there is none). The wrapper passes no argument on.\<close>
  "call_onComplete ManagerCallback arg w = ScenarioManager_onScenarioComplete arg w"
| "call_onComplete (UIWrapper original) arg w =
     (case call_onComplete original None w of
        (Some e, w') \<Rightarrow> (Some e, w')
      | (None, w') \<Rightarrow> (None, w'\<lparr>success_dialogues := success_dialogues w' + 1\<rparr>))"

definition emitStateChange :: "scenario \<Rightarrow> world \<Rightarrow> world" where
  \<comment> \<open>\<open>_emitStateChange\<close>: the listener, when there is one, is told the state.\<close>
  "emitStateChange s w =
     (if onStateChange s then w\<lparr>state_changes := state_changes w @ [state s]\<rparr> else w)"

definition complete :: "bool \<Rightarrow> int \<Rightarrow> scenario \<Rightarrow> world \<Rightarrow> js_error option \<times> scenario \<times> world" where
  \<comment> \<open>\<open>Scenario.complete(success)\<close>: the state, the completion record for the callback if
     one is set, the state change.\<close>
  "complete succ now s w =
     (let s1 = s\<lparr>state := Complete, completionTime := Some now\<rparr>;
          duration = now - to_number (base_startTime s1)
      in case onComplete s1 of
           None \<Rightarrow> (None, s1, emitStateChange s1 w)
         | Some cb \<Rightarrow>
             (case call_onComplete cb
                     (Some \<lparr>ev_scenario = scenario_id s1, ev_success = succ,
                             ev_duration = duration, ev_attempts = base_attempts s1,
                             ev_metrics = base_metrics s1\<rparr>) w of
                (Some e, w') \<Rightarrow> (Some e, s1, w')
              | (None, w') \<Rightarrow> (None, s1, emitStateChange s1 w')))"

definition markCheckpoint :: "string \<Rightarrow> int \<Rightarrow> scenario \<Rightarrow> scenario" where
  \<comment> \<open>\<open>_markCheckpoint(checkpointId)\<close>: recorded the first time only.\<close>
  "markCheckpoint checkpointId now s =
     (if map_of (checkpoints (session s)) checkpointId = None
      then s\<lparr>session := (session s)\<lparr>checkpoints := checkpoints (session s)
              @ [(checkpointId, \<lparr>reached = True, timestamp = now,
                                  elapsed = now - to_number (startTime (session s))\<rparr>)]\<rparr>\<rparr>
      else s)"

definition calculateScore :: "int \<Rightarrow> scenario \<Rightarrow> int" where
  \<comment> \<open>\<open>_calculateScore\<close>\<close>
  "calculateScore now s =
     (let score = 100 - (attempts (session s) - 1) * 5 - hintsShown (session s) * 10;
          score' = (if now - to_number (startTime (session s)) < 120 * 1000
                    then score + 10 else score)
      in max 0 (min 100 score'))"

definition saveProgress :: "int \<Rightarrow> scenario \<Rightarrow> world \<Rightarrow> world" where
  \<comment> \<open>\<open>_saveProgress\<close>: the completion record for the progress tracker.\<close>
  "saveProgress now s w =
     (case current_user w of
        None \<Rightarrow> w
      | Some userId \<Rightarrow>
          w\<lparr>tracker_calls := tracker_calls w @ [(userId, scenario_id s, calculateScore now s)]\<rparr>)"

definition showSuccessOverlay :: "success_stats \<Rightarrow> scenario \<Rightarrow> scenario" where
  \<comment> \<open>\<open>_showSuccessOverlay(stats)\<close>\<close>
  "showSuccessOverlay stats s =
     (case successOverlay s of
        None \<Rightarrow> s
      | Some ov \<Rightarrow> s\<lparr>successOverlay := Some (Shown stats),
                      hintButton := map_option (\<lambda>b. False) (hintButton s)\<rparr>)"

definition InfiniteForest_onComplete ::
    "int \<Rightarrow> scenario \<Rightarrow> world \<Rightarrow> js_error option \<times> scenario \<times> world" where
  \<comment> \<open>The method \<open>onComplete()\<close> of the class \<open>InfiniteForest\<close>, ``called when scenario is
     successfully completed'': what a call \<open>InfiniteForest.prototype.onComplete.call(s)\<close>
     does.\<close>
  "InfiniteForest_onComplete now s w =
     (let s1 = s\<lparr>session := (session s)\<lparr>completed := True\<rparr>\<rparr>;
          s2 = markCheckpoint ''scenario_complete'' now s1;
          s3 = s2\<lparr>hintTimers := []\<rparr>;
          timeSpent = (now - to_number (startTime (session s3))) div 1000;
          brokenFps = or_default (fpsBefore (session s3)) 10;
          improvement = to_number (fpsAfter (session s3)) - brokenFps;
          improvementPercent = js_round (real_of_int improvement / real_of_int brokenFps * 100);
          s4 = showSuccessOverlay
                 \<lparr>stats_fpsBefore = brokenFps,
                  stats_fpsAfter = or_default (fpsAfter (session s3)) 60,
                  stats_improvement = improvementPercent,
                  stats_attempts = attempts (session s3),
                  stats_time = timeSpent,
                  stats_hintsUsed = hintsShown (session s3)\<rparr> s3;
          w1 = w\<lparr>editor_log := editor_log w
                 @ [(LogSuccess, CompletedIn timeSpent (attempts (session s4)))]\<rparr>
      in case complete True now s4 w1 of
           (Some e, s5, w2) \<Rightarrow> (Some e, s5, w2)
         | (None, s5, w2) \<Rightarrow> (None, s5, saveProgress now s5 w2))"

record validation_result =
  success_r :: bool
  fps_r :: int
  treeCount_r :: int
  targetFPS_r :: int
  improvement_r :: int
  message_r :: "bool"

definition showFeedback :: "int \<Rightarrow> int \<Rightarrow> int \<Rightarrow> int \<Rightarrow> int \<Rightarrow> scenario \<Rightarrow> world \<Rightarrow> scenario \<times> world" where
  \<comment> \<open>\<open>_showFeedback(fps, treeCount, targetFPS, minTrees, maxTrees)\<close>\<close>
  "showFeedback f cnt target minTrees maxTrees s w =
     (let msg = (if f < target \<and> cnt > maxTrees then StillTooManyTrees cnt f
                 else if f < target then FpsTooLow f target
                 else if cnt < minTrees then LooksEmpty cnt
                 else if cnt > maxTrees then StillSomeLag cnt maxTrees
                 else StoryFailure)
      in (s\<lparr>hintButton := map_option (\<lambda>b. True) (hintButton s)\<rparr>,
          w\<lparr>editor_log := editor_log w @ [(LogWarning, Feedback msg)]\<rparr>))"

definition reading_fps :: "profiler option \<Rightarrow> int" where
  \<comment> \<open>\<open>this.profiler?.metrics?.fps || 0\<close>\<close>
  "reading_fps p = or_default (map_option (\<lambda>q. fps (metrics q)) p) 0"

definition reading_treeCount :: "scene_controller option \<Rightarrow> int" where
  \<comment> \<open>\<open>this.sceneController?.currentTreeCount || 0\<close>\<close>
  "reading_treeCount sc = or_default (map_option currentTreeCount sc) 0"

definition threshold_targetFPS :: "scenario \<Rightarrow> int" where
  \<comment> \<open>\<open>this.validation?.targetFPS || this._defaults.targetFPS\<close>\<close>
  "threshold_targetFPS s =
     or_default (case validation s of None \<Rightarrow> None | Some v \<Rightarrow> targetFPS v) defaults_targetFPS"

definition threshold_minTrees :: "scenario \<Rightarrow> int" where
  \<comment> \<open>\<open>this.validation?.acceptableRange?.min || this._defaults.acceptableRange.min\<close>\<close>
  "threshold_minTrees s =
     or_default (case validation s of None \<Rightarrow> None
                 | Some v \<Rightarrow> (case acceptableRange v of None \<Rightarrow> None | Some r \<Rightarrow> range_min r))
       defaults_min"

definition threshold_maxTrees :: "scenario \<Rightarrow> int" where
  \<comment> \<open>\<open>this.validation?.acceptableRange?.max || this._defaults.acceptableRange.max\<close>\<close>
  "threshold_maxTrees s =
     or_default (case validation s of None \<Rightarrow> None
                 | Some v \<Rightarrow> (case acceptableRange v of None \<Rightarrow> None | Some r \<Rightarrow> range_max r))
       defaults_max"

definition validate ::
    "profiler option \<Rightarrow> scene_controller option \<Rightarrow> int \<Rightarrow> scenario \<Rightarrow> world
       \<Rightarrow> (js_error + validation_result) \<times> scenario \<times> world" where
  \<comment> \<open>\<open>InfiniteForest.validate()\<close>. On the success branch \<open>this.onComplete()\<close> calls what the
     own property holds, with no argument; \<open>null\<close> is not a function. \<open>message_r\<close> tells
     whether the message is \<open>story.success\<close> or \<open>story.failure\<close>.\<close>
  "validate p sc now s w =
     (let f = reading_fps p;
          cnt = reading_treeCount sc;
          target = threshold_targetFPS s;
          minTrees = threshold_minTrees s;
          maxTrees = threshold_maxTrees s;
          s1 = s\<lparr>session := (session s)\<lparr>fpsAfter := Some f\<rparr>,
                 base_metrics := (base_metrics s)\<lparr>metrics_fpsAfter := Some f\<rparr>\<rparr>;
          fpsPass = (f \<ge> target);
          treeCountPass = (cnt \<ge> minTrees \<and> cnt \<le> maxTrees);
          succ = (fpsPass \<and> treeCountPass);
          result = \<lparr>success_r = succ, fps_r = f, treeCount_r = cnt, targetFPS_r = target,
                    improvement_r = f - or_default (fpsBefore (session s1)) 10,
                    message_r = succ\<rparr>
      in if succ
         then (let s2 = markCheckpoint ''fps_improved'' now s1;
                   s3 = markCheckpoint ''tree_count_valid'' now s2
               in case onComplete s3 of
                    None \<Rightarrow> (Inl TypeError, s3, w)
                  | Some cb \<Rightarrow>
                      (case call_onComplete cb None w of
                         (Some e, w') \<Rightarrow> (Inl e, s3, w')
                       | (None, w') \<Rightarrow> (Inr result, s3, w')))
         else (case showFeedback f cnt target minTrees maxTrees s1 w of
                 (s2, w') \<Rightarrow> (Inr result, s2, w')))"

record completion_result =
  success_c :: bool
  fps_c :: int
  targetFPS_c :: "int option"
  improvement_c :: int

definition checkCompletion ::
    "profiler option \<Rightarrow> int \<Rightarrow> scenario \<Rightarrow> world
       \<Rightarrow> (js_error + completion_result) \<times> scenario \<times> world" where
  \<comment> \<open>\<open>Scenario.checkCompletion()\<close>, which \<open>InfiniteForest\<close> inherits: the frame rate alone.
     \<open>this.validation.targetFPS\<close> has no optional chaining, and a comparison with
     \<open>undefined\<close> is false.\<close>
  "checkCompletion p now s w =
     (case validation s of
        None \<Rightarrow> (Inl TypeError, s, w)
      | Some v \<Rightarrow>
          let f = or_default (metrics_fpsAfter (base_metrics s)) (reading_fps p);
              succ = (case targetFPS v of None \<Rightarrow> False | Some t \<Rightarrow> f \<ge> t);
              result = \<lparr>success_c = succ, fps_c = f, targetFPS_c = targetFPS v,
                        improvement_c = to_number (metrics_fpsAfter (base_metrics s))
                                        - to_number (metrics_fpsBefore (base_metrics s))\<rparr>
          in if succ
             then (case complete True now s w of
                     (Some e, s', w') \<Rightarrow> (Inl e, s', w')
                   | (None, s', w') \<Rightarrow> (Inr result, s', w'))
             else (Inr result, s, w))"

definition World :: world where
  \<comment> \<open>A page after \<open>new ScenarioManager(...)\<close>, with a student signed in.\<close>
  "World =
     \<lparr>progress_completed = [], progress_totalTime = 0, tracker_calls = [],
      current_user = Some ''student-1'', editor_log = [], state_changes = [],
      success_dialogues = 0\<rparr>"

definition profiler_at :: "int \<Rightarrow> profiler" where
  \<comment> \<open>A profiler whose last sample measured the given frame rate.\<close>
  "profiler_at f = (VisualProfiler 0)\<lparr>metrics := (metrics (VisualProfiler 0))\<lparr>fps := f\<rparr>\<rparr>"

definition scene_with :: "int \<Rightarrow> scene_controller" where
  \<comment> \<open>The scene after \<open>spawnTrees(n)\<close>.\<close>
  "scene_with n = snd (spawnTrees n (\<lambda>k. 1 / 2) SceneController)"

definition managed_forest :: scenario where
  \<comment> \<open>The scenario as \<open>ScenarioManager.loadScenario('infinite-forest')\<close> sets it up, with the
     fallback configuration and the frame rate of the broken scene captured.\<close>
  "managed_forest =
     (loadScenario_callbacks InfiniteForest)
       \<lparr>validation := Some \<lparr>targetFPS = Some 45,
                             acceptableRange = Some \<lparr>range_min = Some 10, range_max = Some 175\<rparr>\<rparr>,
        state := Fixed, base_startTime := Some 0,
        session := (session InfiniteForest)\<lparr>attempts := 1, startTime := Some 0,
                                              fpsBefore := Some 12\<rparr>,
        hintButton := Some False, successOverlay := Some Hidden\<rparr>"

definition forest_min0 :: scenario where
  \<comment> \<open>A definition whose acceptable range starts at no tree at all.\<close>
  "forest_min0 =
     managed_forest\<lparr>validation := Some \<lparr>targetFPS = Some 45,
                         acceptableRange = Some \<lparr>range_min = Some 0, range_max = Some 175\<rparr>\<rparr>\<rparr>"

section \<open>Auxiliary notions for the proofs about matching\<close>

text \<open>The texts an expression can consume. It is used to show that an expression
  has no match in a text.\<close>

primrec lang :: "bool \<Rightarrow> regex \<Rightarrow> string set" where
  "lang ci (Lit w) = {v. lit_prefix ci w v \<and> length v = length w}"
| "lang ci (Star cl) = {v. list_all (in_class cl) v}"
| "lang ci (Plus cl) = {v. v \<noteq> [] \<and> list_all (in_class cl) v}"
| "lang ci (StarLazy cl) = {v. list_all (in_class cl) v}"
| "lang ci (PlusLazy cl) = {v. v \<noteq> [] \<and> list_all (in_class cl) v}"
| "lang ci (Seq r1 r2) = {u @ v | u v. u \<in> lang ci r1 \<and> v \<in> lang ci r2}"
| "lang ci (Alt r1 r2) = lang ci r1 \<union> lang ci r2"
| "lang ci (Group n r) = lang ci r"
| "lang ci Eps = {[]}"
| "lang ci Eol = {[]}"

text \<open>The two shapes of the comparisons that \<open>extractLimitFromCondition\<close> looks for,
  with the operator left open.\<close>

definition left_cmp :: "string \<Rightarrow> regex" where
  "left_cmp opr = seq [Plus Word, Star Space, Lit opr, Star Space, Group 1 (Plus Digit)]"

definition right_cmp :: "string \<Rightarrow> regex" where
  "right_cmp opr = seq [Group 1 (Plus Digit), Star Space, Lit opr, Star Space, Plus Word]"

section \<open>Health classification\<close>

text \<open>
  C3. \<open>getHealth\<close> is asymmetric: for the frame rate a value at or above the green bound is
  healthy, at or above the yellow bound a warning, below it critical; for memory and draw
  calls a value below the green bound is healthy, below the yellow bound a warning, and
  critical otherwise. With the default thresholds 45 frames per second are healthy, 44 a
  warning and 29 critical, 49 draw calls are healthy and 50 a warning.
\<close>

theorem getHealth_bands:
  "c_class (getHealth ths Fps v) =
     (if v \<ge> green (ths Fps) then ''healthy''
      else if v \<ge> yellow (ths Fps) then ''warning'' else ''critical'')
   \<and> c_class (getHealth ths DrawCalls v) =
     (if v < green (ths DrawCalls) then ''healthy''
      else if v < yellow (ths DrawCalls) then ''warning'' else ''critical'')
   \<and> c_class (getHealth ths Memory v) =
     (if v < green (ths Memory) then ''healthy''
      else if v < yellow (ths Memory) then ''warning'' else ''critical'')
   \<and> c_class (getHealth (thresholds (VisualProfiler t0)) Fps 45) = ''healthy''
   \<and> c_class (getHealth (thresholds (VisualProfiler t0)) Fps 44) = ''warning''
   \<and> c_class (getHealth (thresholds (VisualProfiler t0)) Fps 29) = ''critical''
   \<and> c_class (getHealth (thresholds (VisualProfiler t0)) DrawCalls 49) = ''healthy''
   \<and> c_class (getHealth (thresholds (VisualProfiler t0)) DrawCalls 50) = ''warning''"
  by (simp add: getHealth_def VisualProfiler_def default_thresholds_def)

section \<open>The history ring\<close>

lemma ring_inv_step: "ring_inv p \<Longrightarrow> ring_inv (profiler_step p e)"
  by (cases e) (auto simp: ring_inv_def update_def sampleMetrics_def reset_def Let_def split: option.splits)

lemma ring_inv_run: "ring_inv p \<Longrightarrow> ring_inv (profiler_run p es)"
  unfolding profiler_run_def
  by (induction es arbitrary: p) (auto simp: ring_inv_step)

lemma ring_inv_init: "ring_inv (VisualProfiler t0)"
  by (simp add: ring_inv_def VisualProfiler_def)

lemma samples_rotate:
  "ring_inv p \<Longrightarrow> drawGraph_samples p = rotate (historyIndex p) (fpsHistory p)"
  unfolding drawGraph_samples_def ring_inv_def
  by (rule nth_equalityI) (auto simp: nth_rotate)

lemma rotate_write:
  assumes "length xs = 60" "k < 60"
  shows "rotate ((k + 1) mod 60) (xs[k := v]) = tl (rotate k xs) @ [v]"
proof (rule nth_equalityI)
  show "length (rotate ((k + 1) mod 60) (xs[k := v])) = length (tl (rotate k xs) @ [v])"
    using assms by simp
next
  fix i assume "i < length (rotate ((k + 1) mod 60) (xs[k := v]))"
  then have i: "i < 60" using assms by simp
  have idx: "((k + 1) mod 60 + i) mod 60 = (k + i + 1) mod 60"
    by presburger
  show "rotate ((k + 1) mod 60) (xs[k := v]) ! i = (tl (rotate k xs) @ [v]) ! i"
  proof (cases "i = 59")
    case True
    have "(k + 59 + 1) mod 60 = k" using assms(2) by simp
    then show ?thesis using assms i True idx
      by (simp add: nth_rotate nth_append)
  next
    case False
    then have i59: "i < 59" using i by simp
    have ne: "(k + i + 1) mod 60 \<noteq> k"
    proof (cases "k + i + 1 < 60")
      case True
      then show ?thesis by simp
    next
      case False
      then have "(k + i + 1) mod 60 = k + i + 1 - 60"
        using i59 assms(2) by (simp add: mod_if)
      then show ?thesis using False i59 by simp
    qed
    have "rotate ((k + 1) mod 60) (xs[k := v]) ! i = xs ! ((k + i + 1) mod 60)"
      using assms i idx ne by (simp add: nth_rotate)
    moreover have "(tl (rotate k xs) @ [v]) ! i = xs ! ((k + i + 1) mod 60)"
      using assms i59 by (simp add: nth_append nth_tl nth_rotate add.assoc)
    ultimately show ?thesis by simp
  qed
qed

lemma sample_write:
  assumes "ring_inv p" "now - lastFpsTime p > 0"
  shows "drawGraph_samples (sampleMetrics now info heap p) =
         tl (drawGraph_samples p) @ [fps (metrics (sampleMetrics now info heap p))]"
proof -
  let ?q = "sampleMetrics now info heap p"
  let ?f = "js_round ((real (frameCount p) / (now - lastFpsTime p)) * 1000)"
  have inv': "ring_inv ?q" using ring_inv_step[OF assms(1), of "Sample now info heap"] by simp
  have h: "fpsHistory ?q = (fpsHistory p)[historyIndex p := ?f]"
    and k: "historyIndex ?q = (historyIndex p + 1) mod 60"
    and f: "fps (metrics ?q) = ?f"
    using assms(2) by (auto simp: sampleMetrics_def Let_def split: option.splits)
  show ?thesis
    using assms(1) rotate_write[of "fpsHistory p" "historyIndex p" ?f]
    by (simp add: samples_rotate[OF inv'] samples_rotate[OF assms(1)] h k f ring_inv_def)
qed

lemma sample_nowrite:
  assumes "\<not> now - lastFpsTime p > 0"
  shows "drawGraph_samples (sampleMetrics now info heap p) = drawGraph_samples p"
  using assms by (auto simp: sampleMetrics_def drawGraph_samples_def Let_def split: option.splits)

lemma samples_run:
  "ring_inv p \<Longrightarrow> Reset \<notin> set es \<Longrightarrow>
   drawGraph_samples (profiler_run p es) =
     drop (length (history_writes p es)) (drawGraph_samples p @ history_writes p es)"
proof (induction p es rule: history_writes.induct)
  case (1 p)
  then show ?case by (simp add: profiler_run_def)
next
  case (2 p now info heap es)
  let ?q = "sampleMetrics now info heap p"
  have inv': "ring_inv ?q" using ring_inv_step[OF "2.prems"(1), of "Sample now info heap"] by simp
  have run: "profiler_run p (Sample now info heap # es) = profiler_run ?q es"
    by (simp add: profiler_run_def)
  show ?case
  proof (cases "now - lastFpsTime p > 0")
    case True
    have ne: "drawGraph_samples p \<noteq> []" by (simp add: drawGraph_samples_def)
    then obtain x xs where xs: "drawGraph_samples p = x # xs" by (cases "drawGraph_samples p") auto
    show ?thesis
      using "2.IH"(1)[OF True inv'] "2.prems"(2) True xs
      by (simp add: run sample_write[OF "2.prems"(1) True])
  next
    case False
    show ?thesis
      using "2.IH"(2)[OF False inv'] "2.prems"(2) False
      by (simp add: run sample_nowrite[OF False])
  qed
next
  case (3 p es)
  have "ring_inv (update p)" using ring_inv_step[OF "3.prems"(1), of Frame] by simp
  moreover have "drawGraph_samples (update p) = drawGraph_samples p"
    by (simp add: update_def drawGraph_samples_def)
  ultimately show ?case using "3.IH" "3.prems"(2)
    by (simp add: profiler_run_def)
next
  case (4 p es)
  then show ?case by simp
qed


lemma index_run:
  "ring_inv p \<Longrightarrow> Reset \<notin> set es \<Longrightarrow>
   historyIndex (profiler_run p es) = (historyIndex p + length (history_writes p es)) mod 60"
proof (induction p es rule: history_writes.induct)
  case (1 p)
  then show ?case by (simp add: profiler_run_def ring_inv_def)
next
  case (2 p now info heap es)
  let ?q = "sampleMetrics now info heap p"
  have inv': "ring_inv ?q" using ring_inv_step[OF "2.prems"(1), of "Sample now info heap"] by simp
  have run: "profiler_run p (Sample now info heap # es) = profiler_run ?q es"
    by (simp add: profiler_run_def)
  show ?case
  proof (cases "now - lastFpsTime p > 0")
    case True
    then have k: "historyIndex ?q = (historyIndex p + 1) mod 60"
      by (auto simp: sampleMetrics_def Let_def split: option.splits)
    show ?thesis
      using "2.IH"(1)[OF True inv'] "2.prems"(2) True
      by (simp add: run k mod_simps)
  next
    case False
    then have k: "historyIndex ?q = historyIndex p"
      by (auto simp: sampleMetrics_def Let_def split: option.splits)
    show ?thesis
      using "2.IH"(2)[OF False inv'] "2.prems"(2) False
      by (simp add: run k)
  qed
next
  case (3 p es)
  have "ring_inv (update p)" using ring_inv_step[OF "3.prems"(1), of Frame] by simp
  then show ?case using "3.IH" "3.prems"(2)
    by (simp add: profiler_run_def update_def)
next
  case (4 p es)
  then show ?case by simp
qed

lemma slots_rotate: "map (\<lambda>i. (k + i) mod 60) [0..<60] = rotate k [0..<60]"
  by (rule nth_equalityI) (auto simp: nth_rotate)

text \<open>
  C4. The frame-rate history is a ring of sixty slots. After any sequence of frames, timer
  ticks and resets it still has sixty entries and a cursor below sixty; the sixty slots the
  graph reads, from the cursor onwards, are pairwise different and are all the slots; a
  tick on which time has passed stores its rate at the cursor and moves the cursor on by
  one modulo sixty, leaving the length alone. Without a reset in between, the cursor is the
  number of writes modulo sixty and the graph reads, oldest first, the last sixty values
  of the sequence that begins with the sixty initial entries (all 60) and goes on with the
  written rates; after sixty-five writes these are the written rates without the first five.
\<close>

theorem history_ring:
  "length (fpsHistory (profiler_run (VisualProfiler t0) es)) = 60
   \<and> historyIndex (profiler_run (VisualProfiler t0) es) < 60
   \<and> distinct (map (\<lambda>i. (historyIndex (profiler_run (VisualProfiler t0) es) + i) mod 60) [0..<60])
   \<and> set (map (\<lambda>i. (historyIndex (profiler_run (VisualProfiler t0) es) + i) mod 60) [0..<60]) = {0..<60}
   \<and> (\<forall>now info heap. now - lastFpsTime (profiler_run (VisualProfiler t0) es) > 0 \<longrightarrow>
        (let p = profiler_run (VisualProfiler t0) es; q = sampleMetrics now info heap p in
           fpsHistory q = (fpsHistory p)[historyIndex p := fps (metrics q)]
           \<and> historyIndex q = (historyIndex p + 1) mod 60
           \<and> length (fpsHistory q) = length (fpsHistory p)))
   \<and> (Reset \<notin> set es \<longrightarrow>
        historyIndex (profiler_run (VisualProfiler t0) es) =
          length (history_writes (VisualProfiler t0) es) mod 60
        \<and> drawGraph_samples (profiler_run (VisualProfiler t0) es) =
          drop (length (history_writes (VisualProfiler t0) es))
               (replicate 60 60 @ history_writes (VisualProfiler t0) es)
        \<and> (length (history_writes (VisualProfiler t0) es) = 65 \<longrightarrow>
             drawGraph_samples (profiler_run (VisualProfiler t0) es) =
               drop 5 (history_writes (VisualProfiler t0) es)))"
proof -
  let ?ini = "VisualProfiler t0"
  let ?p = "profiler_run ?ini es"
  have inv: "ring_inv ?p" by (rule ring_inv_run[OF ring_inv_init])
  have s0: "drawGraph_samples ?ini = replicate 60 60"
    by (rule nth_equalityI) (simp_all add: drawGraph_samples_def VisualProfiler_def)
  have k0: "historyIndex ?ini = 0" by (simp add: VisualProfiler_def)
  have a: "length (fpsHistory ?p) = 60" "historyIndex ?p < 60"
    using inv by (simp_all add: ring_inv_def)
  have b: "distinct (map (\<lambda>i. (historyIndex ?p + i) mod 60) [0..<60])"
    by (simp only: slots_rotate distinct_rotate distinct_upt)
  have c: "set (map (\<lambda>i. (historyIndex ?p + i) mod 60) [0..<60]) = {0..<60}"
    by (simp only: slots_rotate set_rotate set_upt)
  have d: "\<forall>now info heap. now - lastFpsTime ?p > 0 \<longrightarrow>
        (let p = ?p; q = sampleMetrics now info heap p in
           fpsHistory q = (fpsHistory p)[historyIndex p := fps (metrics q)]
           \<and> historyIndex q = (historyIndex p + 1) mod 60
           \<and> length (fpsHistory q) = length (fpsHistory p))"
    by (auto simp: sampleMetrics_def Let_def split: option.splits)
  have e: "historyIndex ?p = length (history_writes ?ini es) mod 60"
    and f: "drawGraph_samples ?p =
          drop (length (history_writes ?ini es)) (replicate 60 60 @ history_writes ?ini es)"
    if "Reset \<notin> set es"
    using index_run[OF ring_inv_init that, of t0] samples_run[OF ring_inv_init that, of t0]
    by (simp_all add: s0 k0)
  have g: "drawGraph_samples ?p = drop 5 (history_writes ?ini es)"
    if "Reset \<notin> set es" "length (history_writes ?ini es) = 65"
    using f[OF that(1)] that(2) by simp
  show ?thesis
    using a b c d e f g by blast
qed


theorem history_ring_witness:
  "Reset \<notin> set sixty_five_samples
   \<and> length (history_writes (VisualProfiler 0) sixty_five_samples) = 65
   \<and> historyIndex (profiler_run (VisualProfiler 0) sixty_five_samples) = 5
   \<and> drawGraph_samples (profiler_run (VisualProfiler 0) sixty_five_samples) = map int [6..<66]"
proof -
  have w: "history_writes (VisualProfiler 0) sixty_five_samples = map int [1..<66]"
    by code_simp
  have r: "Reset \<notin> set sixty_five_samples"
    by (auto simp: sixty_five_samples_def)
  show ?thesis
    using history_ring [of 0 sixty_five_samples] r
    by (simp add: w drop_map)
qed

lemma memory_step: "heapless e \<Longrightarrow> memory (metrics (profiler_step p e)) = memory (metrics p)"
  by (cases e) (auto simp: heapless_def sampleMetrics_def update_def reset_def Let_def split: option.splits)

lemma memory_run:
  "list_all heapless es \<Longrightarrow> memory (metrics (profiler_run p es)) = memory (metrics p)"
  unfolding profiler_run_def
  by (induction es arbitrary: p) (simp_all add: memory_step)

text \<open>
  C8, as stated, fails. On a host without \<open>performance.memory\<close> the sample does not carry
  a null heap field: after a frame and a tick the field \<open>memory\<close> is the number 0, and the
  whole sample is equal to the one taken on a host that reports a heap of zero bytes.
\<close>

theorem heap_unavailable_reports_zero:
  "memory (metrics (sampleMetrics 1000 None None (update (VisualProfiler 0)))) = 0
   \<and> metrics (sampleMetrics 1000 None None (update (VisualProfiler 0)))
     = metrics (sampleMetrics 1000 None (Some 0) (update (VisualProfiler 0)))"
  by (simp add: sampleMetrics_def VisualProfiler_def update_def js_round_def Let_def)

text \<open>
  C8, amended. On a host without \<open>performance.memory\<close> a tick leaves the field \<open>memory\<close>
  as it was; the constructor sets it to 0, so as long as no event offers heap figures the
  field stays the number 0.
\<close>

theorem heap_unavailable_memory_unchanged:
  "memory (metrics (sampleMetrics now info None p)) = memory (metrics p)
   \<and> memory (metrics (VisualProfiler t0)) = 0
   \<and> (list_all heapless es \<longrightarrow> memory (metrics (profiler_run (VisualProfiler t0) es)) = 0)"
proof -
  have "memory (metrics (sampleMetrics now info None p)) = memory (metrics p)"
    using memory_step [of "Sample now info None" p] by (simp add: heapless_def)
  moreover have "memory (metrics (VisualProfiler t0)) = 0"
    by (simp add: VisualProfiler_def)
  ultimately show ?thesis
    by (simp add: memory_run)
qed

theorem heap_unavailable_memory_unchanged_witness:
  "list_all heapless [Frame, Frame, Sample 1000 None None, Frame, Sample 2000 None None]
   \<and> memory (metrics (profiler_run (VisualProfiler 0)
        [Frame, Frame, Sample 1000 None None, Frame, Sample 2000 None None])) = 0"
  using heap_unavailable_memory_unchanged
    [of _ _ _ 0 "[Frame, Frame, Sample 1000 None None, Frame, Sample 2000 None None]"]
  by (simp add: heapless_def)


section \<open>Matching: lemmas\<close>

subsection \<open>Successful matches\<close>

lemma star_greedy_run:
  assumes "list_all P xs" "ys = [] \<or> \<not> P (hd ys)" "k ys = Some r"
  shows "star_greedy P k (xs @ ys) = Some r"
  using assms
proof (induction xs)
  case Nil
  then show ?case by (cases ys) auto
next
  case (Cons x xs)
  then show ?case by simp
qed

lemma plus_greedy_run:
  assumes "xs \<noteq> []" "list_all P xs" "ys = [] \<or> \<not> P (hd ys)" "k ys = Some r"
  shows "plus_greedy P k (xs @ ys) = Some r"
proof -
  obtain x xs' where xs: "xs = x # xs'" using assms(1) by (cases xs) auto
  show ?thesis
    using assms(2) star_greedy_run [of P xs' ys k r, OF _ assms(3) assms(4)]
    by (simp add: xs)
qed

lemma rmatch_lit: "rmatch False (Lit w) k (w @ s) c = k s c"
  by (simp add: lit_prefix_def)

lemma rmatch_seq_Cons: "rmatch ci (seq (r # rs)) k s c = rmatch ci r (rmatch ci (seq rs) k) s c"
  by (simp add: seq_def)

lemma rmatch_seq_Nil: "rmatch ci (seq []) k s c = k s c"
  by (simp add: seq_def)

lemma rx_match_here:
  "s \<noteq> [] \<Longrightarrow> rmatch ci r (\<lambda>s c. Some c) s [] = Some c \<Longrightarrow> rx_match ci r s = Some c"
  by (cases s) auto

subsection \<open>What a match consumes\<close>

lemma star_greedy_sound:
  "star_greedy P k s = Some r \<Longrightarrow> \<exists>w s'. s = w @ s' \<and> list_all P w \<and> k s' = Some r"
proof (induction s)
  case Nil
  then show ?case by auto
next
  case (Cons x xs)
  show ?case
  proof (cases "P x \<and> star_greedy P k xs = Some r")
    case True
    then obtain w s' where "xs = w @ s'" "list_all P w" "k s' = Some r"
      using Cons.IH by blast
    then have "x # xs = (x # w) @ s' \<and> list_all P (x # w) \<and> k s' = Some r"
      using True by simp
    then show ?thesis by blast
  next
    case False
    then have "k (x # xs) = Some r"
      using Cons.prems by (auto split: if_splits option.splits)
    then have "x # xs = [] @ (x # xs) \<and> list_all P [] \<and> k (x # xs) = Some r" by simp
    then show ?thesis by blast
  qed
qed

lemma star_lazy_sound:
  "star_lazy P k s = Some r \<Longrightarrow> \<exists>w s'. s = w @ s' \<and> list_all P w \<and> k s' = Some r"
proof (induction s)
  case Nil
  then show ?case by auto
next
  case (Cons x xs)
  show ?case
  proof (cases "k (x # xs) = Some r")
    case True
    then have "x # xs = [] @ (x # xs) \<and> list_all P [] \<and> k (x # xs) = Some r" by simp
    then show ?thesis by blast
  next
    case False
    then have "P x" "star_lazy P k xs = Some r"
      using Cons.prems by (auto split: if_splits option.splits)
    then obtain w s' where "xs = w @ s'" "list_all P w" "k s' = Some r"
      using Cons.IH by blast
    then have "x # xs = (x # w) @ s' \<and> list_all P (x # w) \<and> k s' = Some r"
      using \<open>P x\<close> by simp
    then show ?thesis by blast
  qed
qed

lemma plus_greedy_sound:
  assumes "plus_greedy P k s = Some r"
  shows "\<exists>w s'. s = w @ s' \<and> w \<noteq> [] \<and> list_all P w \<and> k s' = Some r"
proof (cases s)
  case Nil
  then show ?thesis using assms by simp
next
  case (Cons x xs)
  then have px: "P x" and sg: "star_greedy P k xs = Some r"
    using assms by (auto split: if_splits)
  obtain w s' where "xs = w @ s'" "list_all P w" "k s' = Some r"
    using star_greedy_sound [OF sg] by blast
  then have "s = (x # w) @ s' \<and> x # w \<noteq> [] \<and> list_all P (x # w) \<and> k s' = Some r"
    using px Cons by simp
  then show ?thesis by blast
qed

lemma plus_lazy_sound:
  assumes "plus_lazy P k s = Some r"
  shows "\<exists>w s'. s = w @ s' \<and> w \<noteq> [] \<and> list_all P w \<and> k s' = Some r"
proof (cases s)
  case Nil
  then show ?thesis using assms by simp
next
  case (Cons x xs)
  then have px: "P x" and sg: "star_lazy P k xs = Some r"
    using assms by (auto split: if_splits)
  obtain w s' where "xs = w @ s'" "list_all P w" "k s' = Some r"
    using star_lazy_sound [OF sg] by blast
  then have "s = (x # w) @ s' \<and> x # w \<noteq> [] \<and> list_all P (x # w) \<and> k s' = Some r"
    using px Cons by simp
  then show ?thesis by blast
qed

lemma rmatch_sound:
  "rmatch ci r k s c = Some res \<Longrightarrow>
   \<exists>w s' c'. s = w @ s' \<and> w \<in> lang ci r \<and> k s' c' = Some res"
proof (induction r arbitrary: k s c)
  case (Lit w)
  then have p: "lit_prefix ci w s" and k: "k (drop (length w) s) c = Some res"
    by (auto split: if_splits)
  have "s = take (length w) s @ drop (length w) s" by simp
  moreover have "take (length w) s \<in> lang ci (Lit w)"
    using p by (auto simp: lit_prefix_def)
  ultimately show ?case using k by blast
next
  case (Star cl)
  then show ?case using star_greedy_sound [of "in_class cl" "\<lambda>s'. k s' c" s res] by auto
next
  case (Plus cl)
  then show ?case using plus_greedy_sound [of "in_class cl" "\<lambda>s'. k s' c" s res] by auto
next
  case (StarLazy cl)
  then show ?case using star_lazy_sound [of "in_class cl" "\<lambda>s'. k s' c" s res] by auto
next
  case (PlusLazy cl)
  then show ?case using plus_lazy_sound [of "in_class cl" "\<lambda>s'. k s' c" s res] by auto
next
  case (Seq r1 r2)
  from Seq.prems have "rmatch ci r1 (rmatch ci r2 k) s c = Some res" by simp
  from Seq.IH(1) [OF this] obtain u s1 c1 where
    u: "s = u @ s1" "u \<in> lang ci r1" "rmatch ci r2 k s1 c1 = Some res" by blast
  from Seq.IH(2) [OF u(3)] obtain v s2 c2 where
    v: "s1 = v @ s2" "v \<in> lang ci r2" "k s2 c2 = Some res" by blast
  have "s = (u @ v) @ s2" using u(1) v(1) by simp
  moreover have "u @ v \<in> lang ci (Seq r1 r2)" using u(2) v(2) by auto
  ultimately show ?case using v(3) by blast
next
  case (Alt r1 r2)
  then have "rmatch ci r1 k s c = Some res \<or> rmatch ci r2 k s c = Some res"
    by (auto split: option.splits)
  then show ?case
    using Alt.IH(1) [of k s c] Alt.IH(2) [of k s c] by auto
next
  case (Group n r)
  from Group.prems
  have "rmatch ci r (\<lambda>s' c'. k s' ((n, take (length s - length s') s) # c')) s c = Some res"
    by simp
  from Group.IH [OF this] show ?case by auto
next
  case Eps
  then show ?case by auto
next
  case Eol
  then have "k s c = Some res" by (auto split: list.splits if_splits)
  then show ?case by auto
qed

lemma rx_match_sound:
  "rx_match ci r s = Some c \<Longrightarrow> \<exists>pre w post. s = pre @ w @ post \<and> w \<in> lang ci r"
proof (induction s)
  case Nil
  then obtain w s' where "[] = w @ s'" "w \<in> lang ci r"
    using rmatch_sound [of ci r "\<lambda>s c. Some c" "[]" "[]" c] by auto
  then have "[] = [] @ w @ [] \<and> w \<in> lang ci r" by simp
  then show ?case by blast
next
  case (Cons x xs)
  show ?case
  proof (cases "rmatch ci r (\<lambda>s c. Some c) (x # xs) []")
    case None
    then have "rx_match ci r xs = Some c" using Cons.prems by simp
    then obtain pre w post where "xs = pre @ w @ post" "w \<in> lang ci r"
      using Cons.IH by blast
    then have "x # xs = (x # pre) @ w @ post \<and> w \<in> lang ci r" by simp
    then show ?thesis by blast
  next
    case (Some c')
    then obtain w s' where "x # xs = w @ s'" "w \<in> lang ci r"
      using rmatch_sound [of ci r "\<lambda>s c. Some c" "x # xs" "[]" c'] by auto
    then have "x # xs = [] @ w @ s' \<and> w \<in> lang ci r" by simp
    then show ?thesis by blast
  qed
qed

subsection \<open>Decimal numerals\<close>

declare decimal.simps [simp del]

lemma digit_char_props: "d < 10 \<Longrightarrow> is_digit (digit_char d) \<and> digit_value (digit_char d) = int d"
  by (simp add: is_digit_def digit_char_def digit_value_def)

lemma decimal_digits: "decimal n \<noteq> [] \<and> list_all is_digit (decimal n)"
proof (induction n rule: decimal.induct)
  case (1 n)
  show ?case
  proof (cases "n < 10")
    case True
    then show ?thesis using digit_char_props [of n] by (simp add: decimal.simps [of n])
  next
    case False
    then show ?thesis
      using "1.IH" digit_char_props [of "n mod 10"] by (simp add: decimal.simps [of n])
  qed
qed

lemma foldl_digits_snoc:
  "foldl (\<lambda>a ch. 10 * a + digit_value ch) a (xs @ [x]) =
   10 * foldl (\<lambda>a ch. 10 * a + digit_value ch) a xs + digit_value x"
  by simp

lemma takeWhile_all: "list_all P xs \<Longrightarrow> takeWhile P xs = xs"
  by (induction xs) simp_all

lemma parseInt10_digits:
  "list_all is_digit ds \<Longrightarrow> parseInt10 ds = foldl (\<lambda>a ch. 10 * a + digit_value ch) 0 ds"
  by (simp add: parseInt10_def takeWhile_all)

lemma parseInt10_decimal: "parseInt10 (decimal n) = int n"
proof (induction n rule: decimal.induct)
  case (1 n)
  show ?case
  proof (cases "n < 10")
    case True
    then show ?thesis
      using digit_char_props [of n]
      by (simp add: decimal.simps [of n] parseInt10_def)
  next
    case False
    have d: "list_all is_digit (decimal (n div 10))" using decimal_digits by simp
    have "parseInt10 (decimal n) =
          10 * parseInt10 (decimal (n div 10)) + digit_value (digit_char (n mod 10))"
      using d decimal_digits [of n] False
      by (simp add: parseInt10_digits decimal.simps [of n])
    also have "\<dots> = 10 * int (n div 10) + int (n mod 10)"
      using "1.IH" False digit_char_props [of "n mod 10"] by simp
    also have "\<dots> = int n" by (simp add: zmod_int zdiv_int)
    finally show ?thesis .
  qed
qed

subsection \<open>Character facts\<close>

lemma digit_is_word: "is_digit ch \<Longrightarrow> is_word ch"
  by (auto simp: is_digit_def is_word_def Let_def)

lemma word_not_space: "is_word ch \<Longrightarrow> \<not> is_space ch"
  by (auto simp: is_word_def is_space_def Let_def)

lemma digit_not_space: "is_digit ch \<Longrightarrow> \<not> is_space ch"
  using digit_is_word word_not_space by blast

lemma lt_char: "\<not> is_word (CHR ''<'')" "\<not> is_space (CHR ''<'')" "\<not> is_digit (CHR ''<'')"
  by (simp_all add: is_word_def is_space_def is_digit_def)

lemma gt_char: "\<not> is_word (CHR ''>'')" "\<not> is_space (CHR ''>'')" "\<not> is_digit (CHR ''>'')"
  by (simp_all add: is_word_def is_space_def is_digit_def)

lemma eq_char: "\<not> is_word (CHR ''='')" "\<not> is_space (CHR ''='')" "\<not> is_digit (CHR ''='')"
  by (simp_all add: is_word_def is_space_def is_digit_def)

lemma lt_notin:
  "list_all is_word xs \<Longrightarrow> CHR ''<'' \<notin> set xs"
  "list_all is_space xs \<Longrightarrow> CHR ''<'' \<notin> set xs"
  "list_all is_digit xs \<Longrightarrow> CHR ''<'' \<notin> set xs"
  using lt_char by (auto simp: list_all_iff)

lemma gt_notin:
  "list_all is_word xs \<Longrightarrow> CHR ''>'' \<notin> set xs"
  "list_all is_space xs \<Longrightarrow> CHR ''>'' \<notin> set xs"
  "list_all is_digit xs \<Longrightarrow> CHR ''>'' \<notin> set xs"
  using gt_char by (auto simp: list_all_iff)

subsection \<open>The comparison shapes\<close>


lemma in_class_eq:
  "in_class Space = is_space" "in_class Word = is_word" "in_class Digit = is_digit"
  by (rule ext, simp)+

lemma hd_run: "xs \<noteq> [] \<Longrightarrow> list_all P xs \<Longrightarrow> P (hd (xs @ ys))"
  by (cases xs) auto

lemma left_cmp_match:
  assumes i: "ident \<noteq> []" "list_all is_word ident"
    and d: "ds \<noteq> []" "list_all is_digit ds"
    and s: "list_all is_space sp1" "list_all is_space sp2"
    and o: "opr \<noteq> []" "\<not> is_word (hd opr)" "\<not> is_space (hd opr)"
  shows "rx_match False (left_cmp opr) (ident @ sp1 @ opr @ sp2 @ ds) = Some [(1, ds)]"
proof -
  let ?K = "\<lambda>(s::string) (c::captures). Some c"
  have g: "rmatch False (seq [Group 1 (Plus Digit)]) ?K ds [] = Some [(1, ds)]"
    using plus_greedy_run [of ds is_digit "[]"
        "\<lambda>s'. Some [(1::nat, take (length ds - length s') ds)]" "[(1::nat, ds)]"] d
    by (simp add: rmatch_seq_Cons rmatch_seq_Nil in_class_eq)
  have nsp: "\<not> is_space (hd ds)"
    using d digit_not_space by (cases ds) auto
  have s2: "rmatch False (seq [Star Space, Group 1 (Plus Digit)]) ?K (sp2 @ ds) [] = Some [(1, ds)]"
    using star_greedy_run [of is_space sp2 ds
        "\<lambda>s'. rmatch False (seq [Group 1 (Plus Digit)]) ?K s' []" "[(1::nat, ds)]"] s(2) nsp g
    by (simp add: rmatch_seq_Cons [of False "Star Space"] in_class_eq)
  have l: "rmatch False (seq [Lit opr, Star Space, Group 1 (Plus Digit)]) ?K (opr @ sp2 @ ds) []
           = Some [(1, ds)]"
    using s2 by (simp add: rmatch_seq_Cons [of False "Lit opr"] rmatch_lit del: rmatch.simps)
  have hdo: "hd (opr @ sp2 @ ds) = hd opr" using o(1) by simp
  have s1: "rmatch False (seq [Star Space, Lit opr, Star Space, Group 1 (Plus Digit)]) ?K
              (sp1 @ opr @ sp2 @ ds) [] = Some [(1, ds)]"
    using star_greedy_run [of is_space sp1 "opr @ sp2 @ ds"
        "\<lambda>s'. rmatch False (seq [Lit opr, Star Space, Group 1 (Plus Digit)]) ?K s' []" "[(1::nat, ds)]"]
      s(1) o(3) l hdo
    by (simp add: rmatch_seq_Cons [of False "Star Space"] in_class_eq)
  have hd1: "\<not> is_word (hd (sp1 @ opr @ sp2 @ ds))"
  proof (cases sp1)
    case Nil
    then show ?thesis using o hdo by simp
  next
    case (Cons x xs)
    then show ?thesis using s(1) word_not_space by auto
  qed
  have "rmatch False (left_cmp opr) ?K (ident @ sp1 @ opr @ sp2 @ ds) [] = Some [(1, ds)]"
    unfolding left_cmp_def
    using plus_greedy_run [of ident is_word "sp1 @ opr @ sp2 @ ds"
        "\<lambda>s'. rmatch False (seq [Star Space, Lit opr, Star Space, Group 1 (Plus Digit)]) ?K s' []"
        "[(1::nat, ds)]"] i hd1 s1
    by (simp add: rmatch_seq_Cons [of False "Plus Word"] in_class_eq)
  then show ?thesis
    using i(1) by (intro rx_match_here) auto
qed


lemma right_cmp_match:
  assumes i: "ident \<noteq> []" "list_all is_word ident"
    and d: "ds \<noteq> []" "list_all is_digit ds"
    and s: "list_all is_space sp1" "list_all is_space sp2"
    and o: "opr \<noteq> []" "\<not> is_digit (hd opr)" "\<not> is_space (hd opr)"
  shows "rx_match False (right_cmp opr) (ds @ sp1 @ opr @ sp2 @ ident) = Some [(1, ds)]"
proof -
  let ?K = "\<lambda>(s::string) (c::captures). Some c"
  let ?c = "[(1::nat, ds)]"
  have w: "rmatch False (seq [Plus Word]) ?K ident ?c = Some ?c"
    using plus_greedy_run [of ident is_word "[]" "\<lambda>s'. Some ?c" ?c] i
    by (simp add: rmatch_seq_Cons rmatch_seq_Nil in_class_eq)
  have nsp: "\<not> is_space (hd ident)"
    using i word_not_space by (cases ident) auto
  have s2: "rmatch False (seq [Star Space, Plus Word]) ?K (sp2 @ ident) ?c = Some ?c"
    using star_greedy_run [of is_space sp2 ident
        "\<lambda>s'. rmatch False (seq [Plus Word]) ?K s' ?c" ?c] s(2) nsp w
    by (simp add: rmatch_seq_Cons [of False "Star Space"] in_class_eq)
  have l: "rmatch False (seq [Lit opr, Star Space, Plus Word]) ?K (opr @ sp2 @ ident) ?c = Some ?c"
    using s2 by (simp add: rmatch_seq_Cons [of False "Lit opr"] rmatch_lit del: rmatch.simps)
  have hdo: "hd (opr @ sp2 @ ident) = hd opr" using o(1) by simp
  have s1: "rmatch False (seq [Star Space, Lit opr, Star Space, Plus Word]) ?K
              (sp1 @ opr @ sp2 @ ident) ?c = Some ?c"
    using star_greedy_run [of is_space sp1 "opr @ sp2 @ ident"
        "\<lambda>s'. rmatch False (seq [Lit opr, Star Space, Plus Word]) ?K s' ?c" ?c]
      s(1) o(3) l hdo
    by (simp add: rmatch_seq_Cons [of False "Star Space"] in_class_eq)
  have hd1: "\<not> is_digit (hd (sp1 @ opr @ sp2 @ ident))"
  proof (cases sp1)
    case Nil
    then show ?thesis using o hdo by simp
  next
    case (Cons x xs)
    then show ?thesis using s(1) digit_not_space by auto
  qed
  let ?s = "ds @ sp1 @ opr @ sp2 @ ident"
  have "plus_greedy is_digit
          (\<lambda>s'. rmatch False (seq [Star Space, Lit opr, Star Space, Plus Word]) ?K s'
                  [(1::nat, take (length ?s - length s') ?s)])
          (ds @ sp1 @ opr @ sp2 @ ident) = Some ?c"
    using d hd1 s1 by (intro plus_greedy_run) simp_all
  moreover have "rmatch False (right_cmp opr) ?K ?s [] =
      plus_greedy is_digit
          (\<lambda>s'. rmatch False (seq [Star Space, Lit opr, Star Space, Plus Word]) ?K s'
                  [(1::nat, take (length ?s - length s') ?s)]) ?s"
    unfolding right_cmp_def
    by (simp only: rmatch_seq_Cons [of False "Group 1 (Plus Digit)"] rmatch.simps(3,8) in_class_eq)
  ultimately have "rmatch False (right_cmp opr) ?K ?s [] = Some ?c"
    by simp
  then show ?thesis
    using d(1) by (intro rx_match_here) auto
qed

lemma lang_lit: "w \<in> lang False (Lit opr) \<Longrightarrow> w = opr"
proof -
  assume "w \<in> lang False (Lit opr)"
  then have "take (length opr) w = opr" "length w = length opr"
    by (simp_all add: lit_prefix_def)
  then have "take (length w) w = opr" by simp
  then show "w = opr" by simp
qed

lemma lang_seq_Cons:
  "w \<in> lang ci (seq (r # rs)) \<Longrightarrow> \<exists>u v. w = u @ v \<and> u \<in> lang ci r \<and> v \<in> lang ci (seq rs)"
  by (auto simp: seq_def)

lemma lang_seq_Nil: "w \<in> lang ci (seq []) \<Longrightarrow> w = []"
  by (simp add: seq_def)

lemma lang_left_cmp:
  assumes "w \<in> lang False (left_cmp opr)"
  shows "\<exists>a sp sp' d. w = a @ sp @ opr @ sp' @ d \<and> list_all is_word a \<and> list_all is_space sp
           \<and> list_all is_space sp' \<and> d \<noteq> [] \<and> list_all is_digit d"
proof -
  from assms obtain a w1 where 1: "w = a @ w1" "a \<in> lang False (Plus Word)"
    "w1 \<in> lang False (seq [Star Space, Lit opr, Star Space, Group 1 (Plus Digit)])"
    unfolding left_cmp_def using lang_seq_Cons by blast
  from 1(3) obtain sp w2 where 2: "w1 = sp @ w2" "sp \<in> lang False (Star Space)"
    "w2 \<in> lang False (seq [Lit opr, Star Space, Group 1 (Plus Digit)])"
    using lang_seq_Cons by blast
  from 2(3) obtain o' w3 where 3: "w2 = o' @ w3" "o' \<in> lang False (Lit opr)"
    "w3 \<in> lang False (seq [Star Space, Group 1 (Plus Digit)])"
    using lang_seq_Cons by blast
  from 3(3) obtain sp' w4 where 4: "w3 = sp' @ w4" "sp' \<in> lang False (Star Space)"
    "w4 \<in> lang False (seq [Group 1 (Plus Digit)])"
    using lang_seq_Cons by blast
  from 4(3) obtain d w5 where 5: "w4 = d @ w5" "d \<in> lang False (Group 1 (Plus Digit))"
    "w5 \<in> lang False (seq [])"
    using lang_seq_Cons by blast
  have "w = a @ sp @ opr @ sp' @ d"
    using 1(1) 2(1) 3(1) 4(1) 5(1) lang_lit [OF 3(2)] lang_seq_Nil [OF 5(3)] by simp
  moreover have "list_all is_word a" "list_all is_space sp" "list_all is_space sp'"
    "d \<noteq> []" "list_all is_digit d"
    using 1(2) 2(2) 4(2) 5(2) by (simp_all add: in_class_eq)
  ultimately show ?thesis by blast
qed

lemma lang_right_cmp:
  assumes "w \<in> lang False (right_cmp opr)"
  shows "\<exists>d sp sp' a. w = d @ sp @ opr @ sp' @ a \<and> list_all is_digit d \<and> list_all is_space sp
           \<and> list_all is_space sp' \<and> a \<noteq> [] \<and> list_all is_word a"
proof -
  from assms obtain d w1 where 1: "w = d @ w1" "d \<in> lang False (Group 1 (Plus Digit))"
    "w1 \<in> lang False (seq [Star Space, Lit opr, Star Space, Plus Word])"
    unfolding right_cmp_def using lang_seq_Cons by blast
  from 1(3) obtain sp w2 where 2: "w1 = sp @ w2" "sp \<in> lang False (Star Space)"
    "w2 \<in> lang False (seq [Lit opr, Star Space, Plus Word])"
    using lang_seq_Cons by blast
  from 2(3) obtain o' w3 where 3: "w2 = o' @ w3" "o' \<in> lang False (Lit opr)"
    "w3 \<in> lang False (seq [Star Space, Plus Word])"
    using lang_seq_Cons by blast
  from 3(3) obtain sp' w4 where 4: "w3 = sp' @ w4" "sp' \<in> lang False (Star Space)"
    "w4 \<in> lang False (seq [Plus Word])"
    using lang_seq_Cons by blast
  from 4(3) obtain a w5 where 5: "w4 = a @ w5" "a \<in> lang False (Plus Word)"
    "w5 \<in> lang False (seq [])"
    using lang_seq_Cons by blast
  have "w = d @ sp @ opr @ sp' @ a"
    using 1(1) 2(1) 3(1) 4(1) 5(1) lang_lit [OF 3(2)] lang_seq_Nil [OF 5(3)] by simp
  moreover have "list_all is_digit d" "list_all is_space sp" "list_all is_space sp'"
    "a \<noteq> []" "list_all is_word a"
    using 1(2) 2(2) 4(2) 5(2) by (simp_all add: in_class_eq)
  ultimately show ?thesis by blast
qed

lemma no_match_missing_char:
  assumes "\<And>w. w \<in> lang False r \<Longrightarrow> c \<in> set w" "c \<notin> set s"
  shows "rx_match False r s = None"
proof (rule ccontr)
  assume "rx_match False r s \<noteq> None"
  then obtain m where m: "rx_match False r s = Some m" by auto
  from rx_match_sound [OF m] obtain pre w post where "s = pre @ w @ post" "w \<in> lang False r"
    by blast
  then show False using assms by auto
qed

lemma no_strict_match:
  assumes lang: "\<And>w. w \<in> lang False r \<Longrightarrow>
        \<exists>u sp v. w = u @ c # sp @ v \<and> list_all is_space sp \<and> v \<noteq> [] \<and> Q (hd v)"
    and s: "s = X @ c # e # Y" "c \<notin> set X" "c \<notin> set Y" "c \<noteq> e" "\<not> is_space e" "\<not> Q e"
  shows "rx_match False r s = None"
proof (rule ccontr)
  assume "rx_match False r s \<noteq> None"
  then obtain m where m: "rx_match False r s = Some m" by auto
  from rx_match_sound [OF m] obtain pre w post where pw: "s = pre @ w @ post" "w \<in> lang False r"
    by blast
  from lang [OF pw(2)] obtain u sp v where
    w: "w = u @ c # sp @ v" "list_all is_space sp" "v \<noteq> []" "Q (hd v)" by blast
  have two: "X @ c # (e # Y) = (pre @ u) @ c # (sp @ v @ post)"
    using s(1) pw(1) w(1) by simp
  have ny: "c \<notin> set (e # Y)" using s(3,4) by simp
  have "X = pre @ u \<and> e # Y = sp @ v @ post"
    by (rule iffD1 [OF append_Cons_eq_iff [OF s(2) ny] two])
  then have "e # Y = sp @ v @ post" ..
  then show False
    using w(2,3,4) s(5,6) by (cases sp; cases v) auto
qed

lemma lt_re_eq: "lt_re = left_cmp ''<''" and le_re_eq: "le_re = left_cmp ''<=''"
  and gt_re_eq: "gt_re = right_cmp ''>''" and ge_re_eq: "ge_re = right_cmp ''>=''"
  by (simp_all add: lt_re_def le_re_def gt_re_def ge_re_def left_cmp_def right_cmp_def)

lemma extract_lt:
  assumes "ident \<noteq> []" "list_all is_word ident" "ds \<noteq> []" "list_all is_digit ds"
    "list_all is_space sp1" "list_all is_space sp2"
  shows "extractLimitFromCondition (ident @ sp1 @ ''<'' @ sp2 @ ds) = Some (parseInt10 ds)"
  using left_cmp_match [OF assms, of "''<''"] lt_char
  by (simp add: extractLimitFromCondition_def lt_re_eq group_def)

lemma extract_le:
  assumes "ident \<noteq> []" "list_all is_word ident" "ds \<noteq> []" "list_all is_digit ds"
    "list_all is_space sp1" "list_all is_space sp2"
  shows "extractLimitFromCondition (ident @ sp1 @ ''<='' @ sp2 @ ds) = Some (parseInt10 ds + 1)"
proof -
  have "rx_match False (left_cmp ''<'') ((ident @ sp1) @ CHR ''<'' # CHR ''='' # (sp2 @ ds)) = None"
  proof (rule no_strict_match [where Q = is_digit])
    fix w assume "w \<in> lang False (left_cmp ''<'')"
    from lang_left_cmp [OF this] obtain a sp sp' d where
      "w = a @ sp @ ''<'' @ sp' @ d" "list_all is_space sp'" "d \<noteq> []" "list_all is_digit d"
      by blast
    then have "w = (a @ sp) @ CHR ''<'' # sp' @ d \<and> list_all is_space sp' \<and> d \<noteq> [] \<and> is_digit (hd d)"
      by (cases d) auto
    then show "\<exists>u sp v. w = u @ CHR ''<'' # sp @ v \<and> list_all is_space sp \<and> v \<noteq> [] \<and> is_digit (hd v)"
      by blast
  next
    show "CHR ''<'' \<notin> set (ident @ sp1)"
      using assms(2,5) by (simp add: lt_notin)
    show "CHR ''<'' \<notin> set (sp2 @ ds)"
      using assms(4,6) by (simp add: lt_notin)
    show "CHR ''<'' \<noteq> CHR ''=''" by simp
    show "\<not> is_space (CHR ''='')" by (rule eq_char)
    show "\<not> is_digit (CHR ''='')" by (rule eq_char)
  qed simp
  then have "rx_match False lt_re (ident @ sp1 @ ''<='' @ sp2 @ ds) = None"
    by (simp add: lt_re_eq)
  then show ?thesis
    using left_cmp_match [OF assms, of "''<=''"] lt_char
    by (simp add: extractLimitFromCondition_def le_re_eq group_def)
qed

lemma no_lt_le:
  assumes "CHR ''<'' \<notin> set s"
  shows "rx_match False lt_re s = None" "rx_match False le_re s = None"
proof -
  have 1: "CHR ''<'' \<in> set w" if "w \<in> lang False (left_cmp ''<'')" for w
    using lang_left_cmp [OF that] by auto
  show "rx_match False lt_re s = None"
    unfolding lt_re_eq using 1 assms by (rule no_match_missing_char)
  have 2: "CHR ''<'' \<in> set w" if "w \<in> lang False (left_cmp ''<='')" for w
    using lang_left_cmp [OF that] by auto
  show "rx_match False le_re s = None"
    unfolding le_re_eq using 2 assms by (rule no_match_missing_char)
qed

lemma extract_gt:
  assumes "ident \<noteq> []" "list_all is_word ident" "ds \<noteq> []" "list_all is_digit ds"
    "list_all is_space sp1" "list_all is_space sp2"
  shows "extractLimitFromCondition (ds @ sp1 @ ''>'' @ sp2 @ ident) = Some (parseInt10 ds)"
proof -
  have "CHR ''<'' \<notin> set (ds @ sp1 @ ''>'' @ sp2 @ ident)"
    using assms(2,4,5,6) by (simp add: lt_notin)
  from no_lt_le [OF this] show ?thesis
    using right_cmp_match [OF assms, of "''>''"] gt_char
    by (simp add: extractLimitFromCondition_def gt_re_eq group_def)
qed

lemma extract_ge:
  assumes "ident \<noteq> []" "list_all is_word ident" "ds \<noteq> []" "list_all is_digit ds"
    "list_all is_space sp1" "list_all is_space sp2"
  shows "extractLimitFromCondition (ds @ sp1 @ ''>='' @ sp2 @ ident) = Some (parseInt10 ds + 1)"
proof -
  have "CHR ''<'' \<notin> set (ds @ sp1 @ ''>='' @ sp2 @ ident)"
    using assms(2,4,5,6) by (simp add: lt_notin)
  note nolt = no_lt_le [OF this]
  have "rx_match False (right_cmp ''>'') ((ds @ sp1) @ CHR ''>'' # CHR ''='' # (sp2 @ ident)) = None"
  proof (rule no_strict_match [where Q = is_word])
    fix w assume "w \<in> lang False (right_cmp ''>'')"
    from lang_right_cmp [OF this] obtain d sp sp' a where
      "w = d @ sp @ ''>'' @ sp' @ a" "list_all is_space sp'" "a \<noteq> []" "list_all is_word a"
      by blast
    then have "w = (d @ sp) @ CHR ''>'' # sp' @ a \<and> list_all is_space sp' \<and> a \<noteq> [] \<and> is_word (hd a)"
      by (cases a) auto
    then show "\<exists>u sp v. w = u @ CHR ''>'' # sp @ v \<and> list_all is_space sp \<and> v \<noteq> [] \<and> is_word (hd v)"
      by blast
  next
    show "CHR ''>'' \<notin> set (ds @ sp1)"
      using assms(4,5) by (simp add: gt_notin)
    show "CHR ''>'' \<notin> set (sp2 @ ident)"
      using assms(2,6) by (simp add: gt_notin)
    show "CHR ''>'' \<noteq> CHR ''=''" by simp
    show "\<not> is_space (CHR ''='')" by (rule eq_char)
    show "\<not> is_word (CHR ''='')" by (rule eq_char)
  qed simp
  then have "rx_match False gt_re (ds @ sp1 @ ''>='' @ sp2 @ ident) = None"
    by (simp add: gt_re_eq)
  then show ?thesis
    using right_cmp_match [OF assms, of "''>=''"] gt_char nolt
    by (simp add: extractLimitFromCondition_def ge_re_eq group_def)
qed

subsection \<open>Matches of the loop and assignment patterns\<close>

lemma star_greedy_none:
  assumes "\<And>u t. s = u @ t \<Longrightarrow> list_all P u \<Longrightarrow> k t = None"
  shows "star_greedy P k s = None"
proof (cases "star_greedy P k s")
  case None
  then show ?thesis .
next
  case (Some r)
  from star_greedy_sound [OF Some] obtain u t where "s = u @ t" "list_all P u" "k t = Some r"
    by blast
  then show ?thesis using assms by fastforce
qed

lemma star_lazy_here: "k ys = Some r \<Longrightarrow> star_lazy P k ys = Some r"
  by (cases ys) auto

lemma star_lazy_first:
  assumes "list_all P xs" "\<And>u v. xs = u @ v \<Longrightarrow> v \<noteq> [] \<Longrightarrow> k (v @ ys) = None"
    "k ys = Some r"
  shows "star_lazy P k (xs @ ys) = Some r"
  using assms
proof (induction xs)
  case Nil
  then show ?case by (simp add: star_lazy_here)
next
  case (Cons x xs)
  have n: "k ((x # xs) @ ys) = None"
    using Cons.prems(2) [of "[]" "x # xs"] by simp
  have "star_lazy P k (xs @ ys) = Some r"
  proof (rule Cons.IH)
    show "list_all P xs" using Cons.prems(1) by simp
    show "k (v @ ys) = None" if "xs = u @ v" "v \<noteq> []" for u v
      using Cons.prems(2) [of "x # u" v] that by simp
    show "k ys = Some r" by (rule Cons.prems(3))
  qed
  then show ?case using n Cons.prems(1) by simp
qed

lemma plus_lazy_first:
  assumes "xs \<noteq> []" "list_all P xs"
    "\<And>u v. xs = u @ v \<Longrightarrow> u \<noteq> [] \<Longrightarrow> v \<noteq> [] \<Longrightarrow> k (v @ ys) = None"
    "k ys = Some r"
  shows "plus_lazy P k (xs @ ys) = Some r"
proof -
  obtain x xs' where xs: "xs = x # xs'" using assms(1) by (cases xs) auto
  have "star_lazy P k (xs' @ ys) = Some r"
  proof (rule star_lazy_first)
    show "list_all P xs'" using assms(2) xs by simp
    show "k (v @ ys) = None" if "xs' = u @ v" "v \<noteq> []" for u v
      using assms(3) [of "x # u" v] that xs by simp
    show "k ys = Some r" by (rule assms(4))
  qed
  then show ?thesis using assms(2) xs by simp
qed

lemma rx_delete_all_id:
  assumes "w \<noteq> []" "hd w \<notin> set s"
  shows "rx_delete_all False (seq (Lit w # rs)) s = s"
  using assms(2)
proof (induction s)
  case Nil
  then show ?case by simp
next
  case (Cons x xs)
  have "\<not> lit_prefix False w (x # xs)"
  proof
    assume "lit_prefix False w (x # xs)"
    then have "take (length w) (x # xs) = w" by (simp add: lit_prefix_def)
    then have "hd w = x" using assms(1) by (cases w) auto
    then show False using Cons.prems by simp
  qed
  then have "rmatch False (seq (Lit w # rs)) (\<lambda>s c. Some s) (x # xs) [] = None"
    by (simp add: rmatch_seq_Cons)
  then show ?case using Cons by simp
qed

lemma stripComments_id: "CHR ''/'' \<notin> set s \<Longrightarrow> stripComments s = s"
  by (simp add: stripComments_def strip_line_re_def strip_block_re_def rx_delete_all_id)


lemma close_paren_not_space: "\<not> is_space (CHR '')'')" "\<not> is_space (CHR ''('')"
  by (simp_all add: is_space_def)

lemma no_close_after_spaces:
  assumes v: "v \<noteq> []" "CHR '')'' \<notin> set v" "\<not> is_space (last v)"
  shows "star_greedy is_space (\<lambda>s'. rmatch False (seq [Lit '')'']) k s' c) (v @ '')'' @ rest) = None"
proof (rule star_greedy_none)
  fix u t
  assume split: "v @ '')'' @ rest = u @ t" and sp: "list_all is_space u"
  have short: "length u < length v"
  proof (rule ccontr)
    assume "\<not> length u < length v"
    then have le: "length v \<le> length u" by simp
    have "v = take (length v) (v @ '')'' @ rest)" by simp
    also have "\<dots> = take (length v) (u @ t)" by (simp only: split)
    also have "\<dots> = take (length v) u" using le by simp
    finally have "v = take (length v) u" .
    then have "set v \<subseteq> set u" by (metis set_take_subset)
    moreover have "last v \<in> set v" using v(1) by simp
    ultimately have "is_space (last v)" using sp by (auto simp: list_all_iff)
    then show False using v(3) by simp
  qed
  have "t = drop (length u) (v @ '')'' @ rest)" using split by simp
  then have t: "t = drop (length u) v @ '')'' @ rest" using short by simp
  have ne: "drop (length u) v \<noteq> []" using short by simp
  then have "hd t \<in> set v"
    using t by (metis hd_append2 hd_in_set in_set_dropD)
  then have "hd t \<noteq> CHR '')''" using v(2) by auto
  moreover have "t \<noteq> []" using t by simp
  ultimately have "\<not> lit_prefix False '')'' t"
    by (cases t) (auto simp: lit_prefix_def)
  then show "rmatch False (seq [Lit '')'']) k t c = None"
    by (simp add: rmatch_seq_Cons)
qed

lemma while_match:
  assumes c: "cond \<noteq> []" "list_all (\<lambda>ch. \<not> is_line_terminator ch) cond"
    "CHR '')'' \<notin> set cond" "\<not> is_space (hd cond)" "\<not> is_space (last cond)"
  shows "rx_match False while_re (''while ('' @ cond @ '')'' @ rest) = Some [(1, cond)]"
proof -
  let ?K = "\<lambda>(s::string) (c::captures). Some c"
  let ?s0 = "cond @ '')'' @ rest"
  let ?k = "\<lambda>s'. rmatch False (seq [Star Space, Lit '')'']) ?K s' [(1::nat, take (length ?s0 - length s') ?s0)]"
  have dot: "in_class Dot = (\<lambda>ch. \<not> is_line_terminator ch)" by (rule ext) simp
  have kend: "?k ('')'' @ rest) = Some [(1, cond)]"
    by (simp add: rmatch_seq_Cons rmatch_seq_Nil in_class_eq lit_prefix_def close_paren_not_space)
  have kfail: "?k (v @ '')'' @ rest) = None" if "cond = u @ v" "u \<noteq> []" "v \<noteq> []" for u v
  proof -
    have "CHR '')'' \<notin> set v" "\<not> is_space (last v)"
      using that c(3,5) by auto
    from no_close_after_spaces [OF that(3) this] show ?thesis
      by (simp add: rmatch_seq_Cons [of False "Star Space"] in_class_eq)
  qed
  have pl: "plus_lazy (\<lambda>ch. \<not> is_line_terminator ch) ?k ?s0 = Some [(1, cond)]"
  proof (rule plus_lazy_first)
    show "cond \<noteq> []" by (rule c(1))
    show "list_all (\<lambda>ch. \<not> is_line_terminator ch) cond" by (rule c(2))
    show "?k (v @ '')'' @ rest) = None" if "cond = u @ v" "u \<noteq> []" "v \<noteq> []" for u v
      using that by (rule kfail)
    show "?k ('')'' @ rest) = Some [(1, cond)]" by (rule kend)
  qed
  have "rmatch False (seq [Group 1 (PlusLazy Dot), Star Space, Lit '')'']) ?K ?s0 []
          = plus_lazy (in_class Dot) ?k ?s0"
    by (simp only: rmatch_seq_Cons [of False "Group 1 (PlusLazy Dot)"] rmatch.simps(5,8))
  then have g: "rmatch False (seq [Group 1 (PlusLazy Dot), Star Space, Lit '')'']) ?K ?s0 []
          = Some [(1, cond)]"
    by (simp only: dot pl)
  have hd0: "hd ?s0 = hd cond" using c(1) by simp
  have s2: "rmatch False (seq [Star Space, Group 1 (PlusLazy Dot), Star Space, Lit '')'']) ?K ?s0 []
            = Some [(1, cond)]"
    using star_greedy_run [of is_space "[]" ?s0
        "\<lambda>s'. rmatch False (seq [Group 1 (PlusLazy Dot), Star Space, Lit '')'']) ?K s' []" "[(1, cond)]"]
      c(4) g hd0
    by (simp add: rmatch_seq_Cons [of False "Star Space"] in_class_eq)
  have l: "rmatch False (seq [Lit ''('', Star Space, Group 1 (PlusLazy Dot), Star Space, Lit '')''])
             ?K (''('' @ ?s0) [] = Some [(1, cond)]"
    using s2 by (simp add: rmatch_seq_Cons [of False "Lit ''(''"] lit_prefix_def)
  have s1: "rmatch False (seq [Star Space, Lit ''('', Star Space, Group 1 (PlusLazy Dot), Star Space,
              Lit '')'']) ?K ('' '' @ ''('' @ ?s0) [] = Some [(1, cond)]"
    using star_greedy_run [of is_space "'' ''" "''('' @ ?s0"
        "\<lambda>s'. rmatch False (seq [Lit ''('', Star Space, Group 1 (PlusLazy Dot), Star Space,
                 Lit '')'']) ?K s' []" "[(1, cond)]"] l
    by (simp add: rmatch_seq_Cons [of False "Star Space"] in_class_eq close_paren_not_space
          is_space_def)
  have "rmatch False while_re ?K (''while'' @ '' '' @ ''('' @ ?s0) [] = Some [(1, cond)]"
    unfolding while_re_def
    using s1 by (simp add: rmatch_seq_Cons [of False "Lit ''while''"] lit_prefix_def)
  then have "rmatch False while_re ?K (''while ('' @ ?s0) [] = Some [(1, cond)]"
    by simp
  then show ?thesis
    by (intro rx_match_here) auto
qed

lemma digits_group:
  assumes d: "ds \<noteq> []" "list_all is_digit ds" and r: "rest = [] \<or> \<not> is_digit (hd rest)"
    and s: "list_all is_space sp"
  shows "rmatch ci (seq [Star Space, Group g (Plus Digit)]) (\<lambda>s c. Some c) (sp @ ds @ rest) c0
           = Some ((g, ds) # c0)"
proof -
  let ?K = "\<lambda>(s::string) (c::captures). Some c"
  let ?k = "\<lambda>s'. Some ((g, take (length (ds @ rest) - length s') (ds @ rest)) # c0)"
  have pg: "plus_greedy is_digit ?k (ds @ rest) = Some ((g, ds) # c0)"
    by (rule plus_greedy_run [OF d r]) simp
  have "rmatch ci (seq [Group g (Plus Digit)]) ?K (ds @ rest) c0 = plus_greedy (in_class Digit) ?k (ds @ rest)"
    by (simp only: rmatch_seq_Cons [of ci "Group g (Plus Digit)"] rmatch_seq_Nil rmatch.simps(3,8))
  then have g: "rmatch ci (seq [Group g (Plus Digit)]) ?K (ds @ rest) c0 = Some ((g, ds) # c0)"
    by (simp only: in_class_eq pg)
  have nsp: "\<not> is_space (hd (ds @ rest))"
    using d digit_not_space by (cases ds) auto
  have ne: "ds @ rest \<noteq> []" using d(1) by simp
  show ?thesis
    using star_greedy_run [of is_space sp "ds @ rest"
        "\<lambda>s'. rmatch ci (seq [Group g (Plus Digit)]) ?K s' c0" "(g, ds) # c0"] s nsp g
    by (simp add: rmatch_seq_Cons [of ci "Star Space"] in_class_eq)
qed

lemma for_match:
  assumes init: "init \<noteq> []" "CHR '';'' \<notin> set init"
    and sp: "list_all is_space sp0" "list_all is_space sp1" "list_all is_space sp2"
    and i: "ident \<noteq> []" "list_all is_word ident"
    and d: "ds \<noteq> []" "list_all is_digit ds"
    and r: "rest = [] \<or> \<not> is_digit (hd rest)"
    and o: "opr = ''<'' \<or> opr = ''<=''"
  shows "rx_match False for_re (''for ('' @ init @ '';'' @ sp0 @ ident @ sp1 @ opr @ sp2 @ ds @ rest)
           = Some [(2, ds), (1, opr)]"
proof -
  let ?K = "\<lambda>(s::string) (c::captures). Some c"
  let ?tail = "seq [Star Space, Group 2 (Plus Digit)]"
  note t = digits_group [OF d r sp(3), of False 2]
  have g1: "rmatch False (seq [Group 1 (Alt (Lit ''<'') (Lit ''<='')), Star Space, Group 2 (Plus Digit)])
              ?K (opr @ sp2 @ ds @ rest) [] = Some [(2, ds), (1, opr)]"
  proof -
    have e: "rmatch False (seq [Group 1 (Alt (Lit ''<'') (Lit ''<='')), Star Space, Group 2 (Plus Digit)])
              ?K s [] =
             (case rmatch False (Lit ''<'')
                     (\<lambda>s' c'. rmatch False ?tail ?K s' ((1, take (length s - length s') s) # c')) s [] of
                Some res \<Rightarrow> Some res
              | None \<Rightarrow> rmatch False (Lit ''<='')
                     (\<lambda>s' c'. rmatch False ?tail ?K s' ((1, take (length s - length s') s) # c')) s [])"
      for s
      by (simp only: rmatch_seq_Cons [of False "Group 1 (Alt (Lit ''<'') (Lit ''<=''))"]
            rmatch.simps(7,8))
    from o show ?thesis
    proof
      assume "opr = ''<''"
      then show ?thesis
        unfolding e using t [of "[(1, ''<'')]"] by (simp add: lit_prefix_def)
    next
      assume le: "opr = ''<=''"
      have f: "rmatch False ?tail ?K (''='' @ sp2 @ ds @ rest) c = None" for c
        by (simp add: rmatch_seq_Cons rmatch_seq_Nil in_class_eq eq_char)
      show ?thesis
        unfolding e le using t [of "[(1, ''<='')]"] f by (simp add: lit_prefix_def)
    qed
  qed
  have o1: "opr \<noteq> []" "\<not> is_space (hd opr)" "\<not> is_word (hd opr)"
    using o lt_char by auto
  have hdo: "hd (opr @ sp2 @ ds @ rest) = hd opr" using o1(1) by simp
  have s1: "rmatch False (seq [Star Space, Group 1 (Alt (Lit ''<'') (Lit ''<='')), Star Space,
              Group 2 (Plus Digit)]) ?K (sp1 @ opr @ sp2 @ ds @ rest) [] = Some [(2, ds), (1, opr)]"
    using star_greedy_run [of is_space sp1 "opr @ sp2 @ ds @ rest"
        "\<lambda>s'. rmatch False (seq [Group 1 (Alt (Lit ''<'') (Lit ''<='')), Star Space,
              Group 2 (Plus Digit)]) ?K s' []" "[(2, ds), (1, opr)]"]
      sp(2) o1(2) g1 hdo
    by (simp add: rmatch_seq_Cons [of False "Star Space"] in_class_eq)
  have hd1: "\<not> is_word (hd (sp1 @ opr @ sp2 @ ds @ rest))"
  proof (cases sp1)
    case Nil
    then show ?thesis using o1 hdo by simp
  next
    case (Cons x xs)
    then show ?thesis using sp(2) word_not_space by auto
  qed
  have w: "rmatch False (seq [Plus Word, Star Space, Group 1 (Alt (Lit ''<'') (Lit ''<='')), Star Space,
              Group 2 (Plus Digit)]) ?K (ident @ sp1 @ opr @ sp2 @ ds @ rest) []
            = Some [(2, ds), (1, opr)]"
    using plus_greedy_run [of ident is_word "sp1 @ opr @ sp2 @ ds @ rest"
        "\<lambda>s'. rmatch False (seq [Star Space, Group 1 (Alt (Lit ''<'') (Lit ''<='')), Star Space,
              Group 2 (Plus Digit)]) ?K s' []" "[(2, ds), (1, opr)]"] i hd1 s1
    by (simp add: rmatch_seq_Cons [of False "Plus Word"] in_class_eq)
  have hd0: "\<not> is_space (hd (ident @ sp1 @ opr @ sp2 @ ds @ rest))"
    using i word_not_space by (cases ident) auto
  have s0: "rmatch False (seq [Star Space, Plus Word, Star Space,
              Group 1 (Alt (Lit ''<'') (Lit ''<='')), Star Space, Group 2 (Plus Digit)]) ?K
              (sp0 @ ident @ sp1 @ opr @ sp2 @ ds @ rest) [] = Some [(2, ds), (1, opr)]"
    using star_greedy_run [of is_space sp0 "ident @ sp1 @ opr @ sp2 @ ds @ rest"
        "\<lambda>s'. rmatch False (seq [Plus Word, Star Space, Group 1 (Alt (Lit ''<'') (Lit ''<='')),
              Star Space, Group 2 (Plus Digit)]) ?K s' []" "[(2, ds), (1, opr)]"]
      sp(1) hd0 w
    by (simp add: rmatch_seq_Cons [of False "Star Space"] in_class_eq)
  have semi: "rmatch False (seq [Lit '';'', Star Space, Plus Word, Star Space,
              Group 1 (Alt (Lit ''<'') (Lit ''<='')), Star Space, Group 2 (Plus Digit)]) ?K
              ('';'' @ sp0 @ ident @ sp1 @ opr @ sp2 @ ds @ rest) [] = Some [(2, ds), (1, opr)]"
    using s0 by (simp add: rmatch_seq_Cons [of False "Lit '';''"] lit_prefix_def)
  have ns: "list_all (\<lambda>ch. ch \<noteq> CHR '';'') init"
    using init(2) by (auto simp: list_all_iff)
  have ic: "in_class NotSemi = (\<lambda>ch. ch \<noteq> CHR '';'')" by (rule ext) simp
  have ini: "rmatch False (seq [Plus NotSemi, Lit '';'', Star Space, Plus Word, Star Space,
              Group 1 (Alt (Lit ''<'') (Lit ''<='')), Star Space, Group 2 (Plus Digit)]) ?K
              (init @ '';'' @ sp0 @ ident @ sp1 @ opr @ sp2 @ ds @ rest) [] = Some [(2, ds), (1, opr)]"
    using plus_greedy_run [of init "\<lambda>ch. ch \<noteq> CHR '';''" "'';'' @ sp0 @ ident @ sp1 @ opr @ sp2 @ ds @ rest"
        "\<lambda>s'. rmatch False (seq [Lit '';'', Star Space, Plus Word, Star Space,
              Group 1 (Alt (Lit ''<'') (Lit ''<='')), Star Space, Group 2 (Plus Digit)]) ?K s' []"
        "[(2, ds), (1, opr)]"] init(1) ns semi
    by (simp add: rmatch_seq_Cons [of False "Plus NotSemi"] ic)
  have "rmatch False for_re ?K
          (''for ('' @ init @ '';'' @ sp0 @ ident @ sp1 @ opr @ sp2 @ ds @ rest) []
        = Some [(2, ds), (1, opr)]"
    unfolding for_re_def
    using ini
    by (simp add: rmatch_seq_Cons [of False "Lit ''for''"] rmatch_seq_Cons [of False "Star Space"]
          rmatch_seq_Cons [of False "Lit ''(''"] lit_prefix_def in_class_eq is_space_def)
  then show ?thesis
    by (intro rx_match_here) auto
qed

lemma assign_match:
  assumes nm: "name = ''maxTrees'' \<or> name = ''treeCount'' \<or> name = ''count''"
    and sp: "list_all is_space sp1" "list_all is_space sp2"
    and d: "ds \<noteq> []" "list_all is_digit ds"
    and r: "rest = [] \<or> \<not> is_digit (hd rest)"
  shows "rx_match True assign_re (name @ sp1 @ ''='' @ sp2 @ ds @ rest) = Some [(2, ds), (1, name)]"
proof -
  let ?K = "\<lambda>(s::string) (c::captures). Some c"
  note t = digits_group [OF d r sp(2), of True 2]
  have eq: "rmatch True (seq [Lit ''='', Star Space, Group 2 (Plus Digit)]) ?K
              (''='' @ sp2 @ ds @ rest) c0 = Some ((2, ds) # c0)" for c0
    using t [of c0] by (simp add: rmatch_seq_Cons [of True "Lit ''=''"] lit_prefix_def)
  have s1: "rmatch True (seq [Star Space, Lit ''='', Star Space, Group 2 (Plus Digit)]) ?K
              (sp1 @ ''='' @ sp2 @ ds @ rest) c0 = Some ((2, ds) # c0)" for c0
    using star_greedy_run [of is_space sp1 "''='' @ sp2 @ ds @ rest"
        "\<lambda>s'. rmatch True (seq [Lit ''='', Star Space, Group 2 (Plus Digit)]) ?K s' c0"
        "(2, ds) # c0"] sp(1) eq [of c0] eq_char
    by (simp add: rmatch_seq_Cons [of True "Star Space"] in_class_eq)
  have e: "rmatch True assign_re ?K s [] =
     (case rmatch True (Lit ''maxTrees'')
             (\<lambda>s' c'. rmatch True (seq [Star Space, Lit ''='', Star Space, Group 2 (Plus Digit)]) ?K s'
                         ((1, take (length s - length s') s) # c')) s [] of
        Some res \<Rightarrow> Some res
      | None \<Rightarrow>
     (case rmatch True (Lit ''treeCount'')
             (\<lambda>s' c'. rmatch True (seq [Star Space, Lit ''='', Star Space, Group 2 (Plus Digit)]) ?K s'
                         ((1, take (length s - length s') s) # c')) s [] of
        Some res \<Rightarrow> Some res
      | None \<Rightarrow>
        rmatch True (Lit ''count'')
             (\<lambda>s' c'. rmatch True (seq [Star Space, Lit ''='', Star Space, Group 2 (Plus Digit)]) ?K s'
                         ((1, take (length s - length s') s) # c')) s []))"
    for s
    unfolding assign_re_def
    by (simp only: rmatch_seq_Cons [of True "Group 1 (Alt (Lit ''maxTrees'')
            (Alt (Lit ''treeCount'') (Lit ''count'')))"] rmatch.simps(7,8))
  have "rmatch True assign_re ?K (name @ sp1 @ ''='' @ sp2 @ ds @ rest) [] = Some [(2, ds), (1, name)]"
    using nm
  proof (elim disjE)
    assume n: "name = ''maxTrees''"
    show ?thesis
      unfolding e n using s1 [of "[(1, ''maxTrees'')]"]
      by (simp add: lit_prefix_def to_lower_def)
  next
    assume n: "name = ''treeCount''"
    show ?thesis
      unfolding e n using s1 [of "[(1, ''treeCount'')]"]
      by (simp add: lit_prefix_def to_lower_def)
  next
    assume n: "name = ''count''"
    show ?thesis
      unfolding e n using s1 [of "[(1, ''count'')]"]
      by (simp add: lit_prefix_def to_lower_def)
  qed
  moreover have "name @ sp1 @ ''='' @ sp2 @ ds @ rest \<noteq> []" using nm by auto
  ultimately show ?thesis
    by (intro rx_match_here) auto
qed


section \<open>The population of trees: theorems\<close>

lemma fold_place_tree:
  assumes "k \<le> length (instanceMatrix t)" "length (instanceMatrix f) = length (instanceMatrix t)"
  shows "fold (place_tree rnd) [0..<k] (t, f) =
     (t\<lparr>instanceMatrix := map (\<lambda>i. Some (trunk_matrix rnd i)) [0..<k] @ drop k (instanceMatrix t)\<rparr>,
      f\<lparr>instanceMatrix := map (\<lambda>i. Some (foliage_matrix rnd i)) [0..<k] @ drop k (instanceMatrix f)\<rparr>)"
  using assms
proof (induction k)
  case 0
  then show ?case by simp
next
  case (Suc k)
  have upd: "(map g [0..<k] @ drop k xs)[k := g k] = map g [0..<Suc k] @ drop (Suc k) xs"
    if "k < length xs" for g :: "nat \<Rightarrow> matrix4 option" and xs
  proof -
    have "drop k xs = xs ! k # drop (Suc k) xs"
      using that by (simp add: Cons_nth_drop_Suc)
    then show ?thesis
      by (simp add: list_update_append)
  qed
  have k: "k < length (instanceMatrix t)" "k < length (instanceMatrix f)"
    using Suc.prems by simp_all
  have "fold (place_tree rnd) [0..<Suc k] (t, f) =
        place_tree rnd k (fold (place_tree rnd) [0..<k] (t, f))"
    by simp
  also have "\<dots> = place_tree rnd k
     (t\<lparr>instanceMatrix := map (\<lambda>i. Some (trunk_matrix rnd i)) [0..<k] @ drop k (instanceMatrix t)\<rparr>,
      f\<lparr>instanceMatrix := map (\<lambda>i. Some (foliage_matrix rnd i)) [0..<k] @ drop k (instanceMatrix f)\<rparr>)"
    using Suc by simp
  also have "\<dots> =
     (t\<lparr>instanceMatrix := map (\<lambda>i. Some (trunk_matrix rnd i)) [0..<Suc k] @ drop (Suc k) (instanceMatrix t)\<rparr>,
      f\<lparr>instanceMatrix := map (\<lambda>i. Some (foliage_matrix rnd i)) [0..<Suc k] @ drop (Suc k) (instanceMatrix f)\<rparr>)"
    using upd [OF k(1), of "\<lambda>i. Some (trunk_matrix rnd i)"]
      upd [OF k(2), of "\<lambda>i. Some (foliage_matrix rnd i)"]
    by (simp add: place_tree_def setMatrixAt_def del: upt_Suc)
  finally show ?case .
qed


lemma build_batches_ok:
  assumes "0 \<le> n"
  shows "\<exists>t f. build_batches n rnd = Inr (t, f)
          \<and> instanceMatrix t = map (\<lambda>i. Some (trunk_matrix rnd i)) [0..<nat n]
          \<and> instanceMatrix f = map (\<lambda>i. Some (foliage_matrix rnd i)) [0..<nat n]
          \<and> batch_built (nat n) t \<and> batch_built (nat n) f"
  using assms
  by (simp add: build_batches_def new_InstancedMesh_def fold_place_tree batch_built_def
        list_all_iff Let_def)

lemma build_batches_fail: "n < 0 \<Longrightarrow> build_batches n rnd = Inl RangeError"
  by (simp add: build_batches_def new_InstancedMesh_def)

lemma dispose_at_props:
  "length (dispose_at i objs) = length objs"
  "is_instanced (dispose_at i objs) j = is_instanced objs j"
  by (auto simp: dispose_at_def is_instanced_def nth_list_update split: object3d.splits if_splits)

lemma cleanup_fields:
  "currentTreeCount (cleanup st) = currentTreeCount st"
  "treeInstancedMesh (cleanup st) = treeInstancedMesh st"
  "length (objects (cleanup st)) = length (objects st)"
  by (simp_all add: cleanup_def scene_remove_def dispose_at_props Let_def split: option.splits prod.splits)

lemma cleanup_batches:
  assumes "scene_inv st"
  shows "population_batches (cleanup st) = []"
    and "list_all (\<lambda>i. i < length (objects (cleanup st))) (children (cleanup st))"
proof -
  have f: "is_instanced (objects (cleanup st)) = is_instanced (objects st)"
    by (rule ext)
      (simp add: cleanup_def scene_remove_def dispose_at_props Let_def split: option.splits prod.splits)
  show "population_batches (cleanup st) = []"
  proof (cases "treeInstancedMesh st")
    case None
    then show ?thesis using assms by (simp add: cleanup_def scene_inv_def)
  next
    case (Some tf)
    obtain t f' where tf: "tf = (t, f')" by (cases tf)
    have b: "filter (is_instanced (objects st)) (children st) = [t, f']
           \<or> filter (is_instanced (objects st)) (children st) = []" and ne: "t \<noteq> f'"
      using assms Some tf by (simp_all add: scene_inv_def population_batches_def)
    have "children (cleanup st) = remove1 f' (remove1 t (children st))"
      using Some tf by (simp add: cleanup_def scene_remove_def Let_def)
    then show ?thesis
      using b ne by (auto simp: population_batches_def f filter_remove1)
  qed
  have "set (children (cleanup st)) \<subseteq> set (children st)"
    by (auto simp: cleanup_def scene_remove_def Let_def split: option.splits prod.splits
          dest!: set_remove1_subset [THEN subsetD])
  then show "list_all (\<lambda>i. i < length (objects (cleanup st))) (children (cleanup st))"
    using assms by (auto simp: scene_inv_def list_all_iff cleanup_fields)
qed


lemma is_instanced_append:
  "i < length objs \<Longrightarrow> is_instanced (objs @ ys) i = is_instanced objs i"
  by (simp add: is_instanced_def nth_append)

lemma spawnTrees_ok:
  assumes inv: "scene_inv st" and n: "0 \<le> n"
  shows "\<exists>t f s1 s2 s3 s4 s5.
           build_batches n rnd = Inr (t, f)
         \<and> spawnTrees_trace n rnd st = ([s1, s2, s3, s4, s5, s5\<lparr>currentTreeCount := n\<rparr>], None)
         \<and> list_all (\<lambda>s. currentTreeCount s = currentTreeCount st) [s1, s2, s3, s4, s5]
         \<and> treeInstancedMesh s5 = Some (length (objects st), length (objects st) + 1)
         \<and> objects s5 = objects (cleanup st) @ [Instanced t, Instanced f]
         \<and> children s5 = children (cleanup st) @ [length (objects st), length (objects st) + 1]
         \<and> population_batches s5 = [length (objects st), length (objects st) + 1]"
proof -
  obtain t f where b: "build_batches n rnd = Inr (t, f)"
    using build_batches_ok [OF n] by blast
  define L where "L = length (objects st)"
  define s1 where "s1 = cleanup st"
  define s2 where "s2 = s1\<lparr>objects := objects s1 @ [Instanced t, Instanced f]\<rparr>"
  define s3 where "s3 = scene_add L s2"
  define s4 where "s4 = scene_add (L + 1) s3"
  define s5 where "s5 = s4\<lparr>treeInstancedMesh := Some (L, L + 1)\<rparr>"
  have len: "length (objects s1) = L"
    by (simp add: s1_def L_def cleanup_fields)
  have tr: "spawnTrees_trace n rnd st = ([s1, s2, s3, s4, s5, s5\<lparr>currentTreeCount := n\<rparr>], None)"
    unfolding spawnTrees_trace_def b s5_def s4_def s3_def s2_def
    by (simp add: Let_def len flip: s1_def)
  have cnt: "list_all (\<lambda>s. currentTreeCount s = currentTreeCount st) [s1, s2, s3, s4, s5]"
    by (simp add: s5_def s4_def s3_def s2_def s1_def cleanup_fields scene_add_def)
  have tim: "treeInstancedMesh s5 = Some (L, L + 1)"
    by (simp add: s5_def)
  have obj: "objects s5 = objects s1 @ [Instanced t, Instanced f]"
    by (simp add: s5_def s4_def s3_def s2_def scene_add_def)
  have chi: "children s5 = children s1 @ [L, L + 1]"
    by (simp add: s5_def s4_def s3_def s2_def scene_add_def)
  have old: "filter (is_instanced (objects s1 @ [Instanced t, Instanced f])) (children s1) = []"
  proof -
    have "filter (is_instanced (objects s1 @ [Instanced t, Instanced f])) (children s1)
        = filter (is_instanced (objects s1)) (children s1)"
      using cleanup_batches(2) [OF inv]
      by (intro filter_cong) (auto simp: list_all_iff is_instanced_append s1_def)
    then show ?thesis
      using cleanup_batches(1) [OF inv] by (simp add: population_batches_def s1_def)
  qed
  have new: "is_instanced (objects s1 @ [Instanced t, Instanced f]) L"
    "is_instanced (objects s1 @ [Instanced t, Instanced f]) (Suc L)"
    by (simp_all add: is_instanced_def len nth_append)
  have pb: "population_batches s5 = [L, L + 1]"
    using old new by (simp add: population_batches_def obj chi)
  show ?thesis
    using b tr cnt tim obj chi pb unfolding L_def s1_def [symmetric]
    by blast
qed


lemma dispose_idem: "dispose (dispose m) = dispose m"
  by (simp add: dispose_def)

lemma mesh_at_dispose_at:
  "mesh_at (dispose_at i objs) j = (if i = j then map_option dispose (mesh_at objs j) else mesh_at objs j)"
  by (auto simp: mesh_at_def dispose_at_def nth_list_update split: object3d.splits if_splits)

lemma scene_inv_init: "scene_inv SceneController"
  by (simp add: scene_inv_def SceneController_def population_batches_def)

lemma population_built_count:
  "population_built m (s\<lparr>currentTreeCount := n\<rparr>) = population_built m s"
  by (simp add: population_built_def population_batches_def split: option.splits prod.splits)

lemma spawnTrees_result:
  assumes "scene_inv st" "0 \<le> n"
  shows "fst (spawnTrees n rnd st) = None
     \<and> currentTreeCount (snd (spawnTrees n rnd st)) = n
     \<and> population_built (nat n) (snd (spawnTrees n rnd st))
     \<and> populationDrawCalls (snd (spawnTrees n rnd st)) = 2
     \<and> scene_inv (snd (spawnTrees n rnd st))"
proof -
  define L where "L = length (objects st)"
  obtain t f s1 s2 s3 s4 s5 where
    b: "build_batches n rnd = Inr (t, f)"
    and tr: "spawnTrees_trace n rnd st = ([s1, s2, s3, s4, s5, s5\<lparr>currentTreeCount := n\<rparr>], None)"
    and tim: "treeInstancedMesh s5 = Some (L, L + 1)"
    and obj: "objects s5 = objects (cleanup st) @ [Instanced t, Instanced f]"
    and chi: "children s5 = children (cleanup st) @ [L, L + 1]"
    and pb: "population_batches s5 = [L, L + 1]"
    using spawnTrees_ok [OF assms, of rnd] unfolding L_def by blast
  from build_batches_ok [OF assms(2), of rnd] b have
    bt: "batch_built (nat n) t" and bf: "batch_built (nat n) f"
    by auto
  define fin where "fin = s5\<lparr>currentTreeCount := n\<rparr>"
  have res: "spawnTrees n rnd st = (None, fin)"
    by (simp add: spawnTrees_def tr fin_def)
  have len: "length (objects (cleanup st)) = L"
    by (simp add: cleanup_fields L_def)
  have at_t: "mesh_at (objects s5) L = Some t" and at_f: "mesh_at (objects s5) (L + 1) = Some f"
    by (simp_all add: mesh_at_def obj len nth_append)
  have built5: "population_built (nat n) s5"
    using at_t at_f by (simp add: population_built_def tim pb bt bf)
  have built: "population_built (nat n) fin"
    by (simp add: fin_def population_built_count built5)
  have calls: "populationDrawCalls fin = 2"
    by (simp add: populationDrawCalls_def fin_def population_batches_def
          pb [unfolded population_batches_def])
  have bound: "list_all (\<lambda>i. i < length (objects fin)) (children fin)"
    using cleanup_batches(2) [OF assms(1)]
    by (auto simp: fin_def obj chi len list_all_iff)
  have ins: "is_instanced (objects fin) L" "is_instanced (objects fin) (L + 1)"
    by (simp_all add: is_instanced_def fin_def obj len nth_append)
  have inv: "scene_inv fin"
    using bound pb ins
    by (simp add: scene_inv_def fin_def tim population_batches_def)
  have cfin: "currentTreeCount fin = n" by (simp add: fin_def)
  show ?thesis
    unfolding res fst_conv snd_conv
    using cfin built calls inv by blast
qed

lemma spawnTrees_keeps_inv:
  assumes "scene_inv st"
  shows "scene_inv (snd (spawnTrees n rnd st))"
proof (cases "0 \<le> n")
  case True
  then show ?thesis using spawnTrees_result [OF assms] by simp
next
  case False
  have same: "is_instanced (objects (cleanup st)) = is_instanced (objects st)"
    by (rule ext)
      (simp add: cleanup_def scene_remove_def dispose_at_props Let_def split: option.splits prod.splits)
  have "scene_inv (cleanup st)"
    using assms cleanup_batches [OF assms]
    by (auto simp: scene_inv_def cleanup_fields same split: option.splits)
  then show ?thesis
    using False
    by (simp add: spawnTrees_def spawnTrees_trace_def build_batches_fail Let_def)
qed

lemma scene_inv_reachable: "scene_inv (spawn_all cs SceneController)"
proof -
  have "scene_inv st \<Longrightarrow> scene_inv (spawn_all cs st)" for st
    unfolding spawn_all_def
    by (induction cs arbitrary: st) (simp_all add: spawnTrees_keeps_inv)
  then show ?thesis using scene_inv_init by simp
qed

lemma spawnTrees_complete:
  assumes "scene_inv st" "0 \<le> n"
  shows "fst (spawnTrees n rnd st) = None
     \<and> currentTreeCount (snd (spawnTrees n rnd st)) = n
     \<and> population_built (nat n) (snd (spawnTrees n rnd st))
     \<and> populationDrawCalls (snd (spawnTrees n rnd st)) = 2
     \<and> (\<exists>trunk foliage mt mf.
           treeInstancedMesh (snd (spawnTrees n rnd st)) = Some (trunk, foliage)
         \<and> mesh_at (objects (snd (spawnTrees n rnd st))) trunk = Some mt
         \<and> mesh_at (objects (snd (spawnTrees n rnd st))) foliage = Some mf
         \<and> instanceMatrix mt = map (\<lambda>i. Some (trunk_matrix rnd i)) [0..<nat n]
         \<and> instanceMatrix mf = map (\<lambda>i. Some (foliage_matrix rnd i)) [0..<nat n])
     \<and> scene_inv (snd (spawnTrees n rnd st))
     \<and> (\<exists>states s5.
           spawnTrees_trace n rnd st = (states @ [s5, s5\<lparr>currentTreeCount := n\<rparr>], None)
         \<and> list_all (\<lambda>s. currentTreeCount s = currentTreeCount st) (states @ [s5])
         \<and> population_built (nat n) s5)"
proof -
  define L where "L = length (objects st)"
  obtain t f s1 s2 s3 s4 s5 where
    b: "build_batches n rnd = Inr (t, f)"
    and tr: "spawnTrees_trace n rnd st = ([s1, s2, s3, s4, s5, s5\<lparr>currentTreeCount := n\<rparr>], None)"
    and cnt: "list_all (\<lambda>s. currentTreeCount s = currentTreeCount st) [s1, s2, s3, s4, s5]"
    and tim: "treeInstancedMesh s5 = Some (L, L + 1)"
    and obj: "objects s5 = objects (cleanup st) @ [Instanced t, Instanced f]"
    using spawnTrees_ok [OF assms, of rnd] unfolding L_def by blast
  from build_batches_ok [OF assms(2), of rnd] b have
    mt: "instanceMatrix t = map (\<lambda>i. Some (trunk_matrix rnd i)) [0..<nat n]"
    and mf: "instanceMatrix f = map (\<lambda>i. Some (foliage_matrix rnd i)) [0..<nat n]"
    by auto
  have res: "snd (spawnTrees n rnd st) = s5\<lparr>currentTreeCount := n\<rparr>"
    by (simp add: spawnTrees_def tr)
  have len: "length (objects (cleanup st)) = L"
    by (simp add: cleanup_fields L_def)
  have at_t: "mesh_at (objects s5) L = Some t" and at_f: "mesh_at (objects s5) (L + 1) = Some f"
    by (simp_all add: mesh_at_def obj len nth_append)
  have mats: "\<exists>trunk foliage mt' mf'.
           treeInstancedMesh (snd (spawnTrees n rnd st)) = Some (trunk, foliage)
         \<and> mesh_at (objects (snd (spawnTrees n rnd st))) trunk = Some mt'
         \<and> mesh_at (objects (snd (spawnTrees n rnd st))) foliage = Some mf'
         \<and> instanceMatrix mt' = map (\<lambda>i. Some (trunk_matrix rnd i)) [0..<nat n]
         \<and> instanceMatrix mf' = map (\<lambda>i. Some (foliage_matrix rnd i)) [0..<nat n]"
    using at_t at_f mt mf by (simp add: res tim)
  have built5: "population_built (nat n) s5"
    using spawnTrees_result [OF assms, of rnd]
    by (simp add: res population_built_count)
  have ord: "\<exists>states s5'.
           spawnTrees_trace n rnd st = (states @ [s5', s5'\<lparr>currentTreeCount := n\<rparr>], None)
         \<and> list_all (\<lambda>s. currentTreeCount s = currentTreeCount st) (states @ [s5'])
         \<and> population_built (nat n) s5'"
    using tr cnt built5
    by (intro exI [of _ "[s1, s2, s3, s4]"] exI [of _ s5]) simp
  show ?thesis
    using spawnTrees_result [OF assms, of rnd] mats ord by blast
qed

lemma matrices_well_placed:
  assumes "\<forall>k. 0 \<le> rnd k \<and> rnd k < 1"
  shows "well_placed (Some (trunk_matrix rnd i))" and "well_placed (Some (foliage_matrix rnd i))"
proof -
  have r: "0 \<le> rnd (4 * i)" "rnd (4 * i) < 1" "0 \<le> rnd (4 * i + 1)" "rnd (4 * i + 1) < 1"
    "0 \<le> rnd (4 * i + 2)" "rnd (4 * i + 2) < 1"
    using assms by simp_all
  show "well_placed (Some (trunk_matrix rnd i))"
    using r by (simp add: well_placed_def trunk_matrix_def spreadRadius_def)
  show "well_placed (Some (foliage_matrix rnd i))"
    using r by (simp add: well_placed_def foliage_matrix_def trunk_matrix_def spreadRadius_def)
qed

text \<open>
  C5. Take a state in which the instanced meshes of the scene are the ones the controller
  refers to (as in every state that calls of \<open>spawnTrees\<close> reach from the constructor's,
  by \<open>scene_inv_reachable\<close>) and a count \<open>n \<ge> 0\<close>. When \<open>spawnTrees(n)\<close> completes, that is,
  ends without an exception, it leaves the count \<open>n\<close>; the field \<open>treeInstancedMesh\<close> refers
  to two different live batches of \<open>n\<close> instances each, which are the only instanced
  meshes of the scene, so that the population costs two draw calls whatever \<open>n\<close> is; every
  index below \<open>n\<close> of either batch holds the matrix the loop computed for it, and, the
  numbers of \<open>Math.random()\<close> lying in the interval from 0 to 1, 1 excluded, no instance is
  degenerate: each is written, lies above the ground (the trunk at height 1, the foliage
  at 3.5 times the scale) and has a scale of at least 0.7; and the count is assigned in
  the last step, in a state where both batches are built and installed, all states before
  it carrying the old count. For the counts up to 1000, the ones that \<open>CodeExecutor\<close> hands
  over, the call does complete.
\<close>

theorem spawnTrees_population:
  "(scene_inv st \<and> 0 \<le> n \<and> fst (spawnTrees n rnd st) = None \<longrightarrow>
       currentTreeCount (snd (spawnTrees n rnd st)) = n
     \<and> population_built (nat n) (snd (spawnTrees n rnd st))
     \<and> populationDrawCalls (snd (spawnTrees n rnd st)) = 2
     \<and> (\<exists>trunk foliage mt mf.
           treeInstancedMesh (snd (spawnTrees n rnd st)) = Some (trunk, foliage)
         \<and> mesh_at (objects (snd (spawnTrees n rnd st))) trunk = Some mt
         \<and> mesh_at (objects (snd (spawnTrees n rnd st))) foliage = Some mf
         \<and> instanceMatrix mt = map (\<lambda>i. Some (trunk_matrix rnd i)) [0..<nat n]
         \<and> instanceMatrix mf = map (\<lambda>i. Some (foliage_matrix rnd i)) [0..<nat n]
         \<and> length (instanceMatrix mt) = nat n \<and> length (instanceMatrix mf) = nat n
         \<and> ((\<forall>k. 0 \<le> rnd k \<and> rnd k < 1) \<longrightarrow>
               list_all well_placed (instanceMatrix mt)
             \<and> list_all well_placed (instanceMatrix mf)
             \<and> list_all (\<lambda>slot. map_option position_y slot = Some 1) (instanceMatrix mt)))
     \<and> scene_inv (snd (spawnTrees n rnd st))
     \<and> (\<exists>states s5.
           spawnTrees_trace n rnd st = (states @ [s5, s5\<lparr>currentTreeCount := n\<rparr>], None)
         \<and> list_all (\<lambda>s. currentTreeCount s = currentTreeCount st) (states @ [s5])
         \<and> population_built (nat n) s5))
   \<and> (0 \<le> n \<and> n \<le> 1000 \<longrightarrow> fst (spawnTrees n rnd st) = None)"
proof (rule conjI)
  show "scene_inv st \<and> 0 \<le> n \<and> fst (spawnTrees n rnd st) = None \<longrightarrow>
       currentTreeCount (snd (spawnTrees n rnd st)) = n
     \<and> population_built (nat n) (snd (spawnTrees n rnd st))
     \<and> populationDrawCalls (snd (spawnTrees n rnd st)) = 2
     \<and> (\<exists>trunk foliage mt mf.
           treeInstancedMesh (snd (spawnTrees n rnd st)) = Some (trunk, foliage)
         \<and> mesh_at (objects (snd (spawnTrees n rnd st))) trunk = Some mt
         \<and> mesh_at (objects (snd (spawnTrees n rnd st))) foliage = Some mf
         \<and> instanceMatrix mt = map (\<lambda>i. Some (trunk_matrix rnd i)) [0..<nat n]
         \<and> instanceMatrix mf = map (\<lambda>i. Some (foliage_matrix rnd i)) [0..<nat n]
         \<and> length (instanceMatrix mt) = nat n \<and> length (instanceMatrix mf) = nat n
         \<and> ((\<forall>k. 0 \<le> rnd k \<and> rnd k < 1) \<longrightarrow>
               list_all well_placed (instanceMatrix mt)
             \<and> list_all well_placed (instanceMatrix mf)
             \<and> list_all (\<lambda>slot. map_option position_y slot = Some 1) (instanceMatrix mt)))
     \<and> scene_inv (snd (spawnTrees n rnd st))
     \<and> (\<exists>states s5.
           spawnTrees_trace n rnd st = (states @ [s5, s5\<lparr>currentTreeCount := n\<rparr>], None)
         \<and> list_all (\<lambda>s. currentTreeCount s = currentTreeCount st) (states @ [s5])
         \<and> population_built (nat n) s5)"
  proof (rule impI)
    assume a: "scene_inv st \<and> 0 \<le> n \<and> fst (spawnTrees n rnd st) = None"
    then have inv: "scene_inv st" and n: "0 \<le> n" by simp_all
    note c = spawnTrees_complete [OF inv n, of rnd]
    from c obtain trunk foliage mt mf where m:
      "treeInstancedMesh (snd (spawnTrees n rnd st)) = Some (trunk, foliage)"
      "mesh_at (objects (snd (spawnTrees n rnd st))) trunk = Some mt"
      "mesh_at (objects (snd (spawnTrees n rnd st))) foliage = Some mf"
      "instanceMatrix mt = map (\<lambda>i. Some (trunk_matrix rnd i)) [0..<nat n]"
      "instanceMatrix mf = map (\<lambda>i. Some (foliage_matrix rnd i)) [0..<nat n]"
      by blast
    have len: "length (instanceMatrix mt) = nat n" "length (instanceMatrix mf) = nat n"
      by (simp_all add: m(4,5))
    have placed: "list_all well_placed (instanceMatrix mt)
             \<and> list_all well_placed (instanceMatrix mf)
             \<and> list_all (\<lambda>slot. map_option position_y slot = Some 1) (instanceMatrix mt)"
      if r: "\<forall>k. 0 \<le> rnd k \<and> rnd k < 1"
      using matrices_well_placed [OF r]
      by (simp add: m(4,5) list_all_iff trunk_matrix_def)
    have mats: "\<exists>trunk foliage mt mf.
           treeInstancedMesh (snd (spawnTrees n rnd st)) = Some (trunk, foliage)
         \<and> mesh_at (objects (snd (spawnTrees n rnd st))) trunk = Some mt
         \<and> mesh_at (objects (snd (spawnTrees n rnd st))) foliage = Some mf
         \<and> instanceMatrix mt = map (\<lambda>i. Some (trunk_matrix rnd i)) [0..<nat n]
         \<and> instanceMatrix mf = map (\<lambda>i. Some (foliage_matrix rnd i)) [0..<nat n]
         \<and> length (instanceMatrix mt) = nat n \<and> length (instanceMatrix mf) = nat n
         \<and> ((\<forall>k. 0 \<le> rnd k \<and> rnd k < 1) \<longrightarrow>
               list_all well_placed (instanceMatrix mt)
             \<and> list_all well_placed (instanceMatrix mf)
             \<and> list_all (\<lambda>slot. map_option position_y slot = Some 1) (instanceMatrix mt))"
      using m len placed by blast
    show "currentTreeCount (snd (spawnTrees n rnd st)) = n
     \<and> population_built (nat n) (snd (spawnTrees n rnd st))
     \<and> populationDrawCalls (snd (spawnTrees n rnd st)) = 2
     \<and> (\<exists>trunk foliage mt mf.
           treeInstancedMesh (snd (spawnTrees n rnd st)) = Some (trunk, foliage)
         \<and> mesh_at (objects (snd (spawnTrees n rnd st))) trunk = Some mt
         \<and> mesh_at (objects (snd (spawnTrees n rnd st))) foliage = Some mf
         \<and> instanceMatrix mt = map (\<lambda>i. Some (trunk_matrix rnd i)) [0..<nat n]
         \<and> instanceMatrix mf = map (\<lambda>i. Some (foliage_matrix rnd i)) [0..<nat n]
         \<and> length (instanceMatrix mt) = nat n \<and> length (instanceMatrix mf) = nat n
         \<and> ((\<forall>k. 0 \<le> rnd k \<and> rnd k < 1) \<longrightarrow>
               list_all well_placed (instanceMatrix mt)
             \<and> list_all well_placed (instanceMatrix mf)
             \<and> list_all (\<lambda>slot. map_option position_y slot = Some 1) (instanceMatrix mt)))
     \<and> scene_inv (snd (spawnTrees n rnd st))
     \<and> (\<exists>states s5.
           spawnTrees_trace n rnd st = (states @ [s5, s5\<lparr>currentTreeCount := n\<rparr>], None)
         \<and> list_all (\<lambda>s. currentTreeCount s = currentTreeCount st) (states @ [s5])
         \<and> population_built (nat n) s5)"
      using c mats by blast
  qed
next
  show "0 \<le> n \<and> n \<le> 1000 \<longrightarrow> fst (spawnTrees n rnd st) = None"
  proof (rule impI)
    assume "0 \<le> n \<and> n \<le> 1000"
    then have n: "0 \<le> n" by simp
    from build_batches_ok [OF n, of rnd] obtain t f where "build_batches n rnd = Inr (t, f)"
      by blast
    then show "fst (spawnTrees n rnd st) = None"
      by (simp add: spawnTrees_def spawnTrees_trace_def Let_def)
  qed
qed

theorem spawnTrees_population_witness:
  "scene_inv SceneController
   \<and> (\<forall>k. (0 :: real) \<le> 1 / 2 \<and> (1 / 2 :: real) < 1)
   \<and> fst (spawnTrees 0 (\<lambda>k. 1 / 2) SceneController) = None
   \<and> currentTreeCount (snd (spawnTrees 0 (\<lambda>k. 1 / 2) SceneController)) = 0
   \<and> populationDrawCalls (snd (spawnTrees 0 (\<lambda>k. 1 / 2) SceneController)) = 2
   \<and> fst (spawnTrees 1 (\<lambda>k. 1 / 2) SceneController) = None
   \<and> currentTreeCount (snd (spawnTrees 1 (\<lambda>k. 1 / 2) SceneController)) = 1
   \<and> populationDrawCalls (snd (spawnTrees 1 (\<lambda>k. 1 / 2) SceneController)) = 2
   \<and> fst (spawnTrees 50 (\<lambda>k. 1 / 2) SceneController) = None
   \<and> currentTreeCount (snd (spawnTrees 50 (\<lambda>k. 1 / 2) SceneController)) = 50
   \<and> populationDrawCalls (snd (spawnTrees 50 (\<lambda>k. 1 / 2) SceneController)) = 2
   \<and> fst (spawnTrees 500 (\<lambda>k. 1 / 2) SceneController) = None
   \<and> currentTreeCount (snd (spawnTrees 500 (\<lambda>k. 1 / 2) SceneController)) = 500
   \<and> populationDrawCalls (snd (spawnTrees 500 (\<lambda>k. 1 / 2) SceneController)) = 2
   \<and> population_built 500 (snd (spawnTrees 500 (\<lambda>k. 1 / 2) SceneController))
   \<and> (\<exists>trunk foliage mt mf.
         treeInstancedMesh (snd (spawnTrees 500 (\<lambda>k. 1 / 2) SceneController)) = Some (trunk, foliage)
       \<and> mesh_at (objects (snd (spawnTrees 500 (\<lambda>k. 1 / 2) SceneController))) trunk = Some mt
       \<and> mesh_at (objects (snd (spawnTrees 500 (\<lambda>k. 1 / 2) SceneController))) foliage = Some mf
       \<and> length (instanceMatrix mt) = 500 \<and> length (instanceMatrix mf) = 500
       \<and> list_all well_placed (instanceMatrix mt)
       \<and> list_all well_placed (instanceMatrix mf))
   \<and> populationDrawCalls (snd (spawnTrees 50 (\<lambda>k. 1 / 2)
         (snd (spawnTrees 500 (\<lambda>k. 1 / 2) SceneController)))) = 2"
proof -
  have c0: "fst (spawnTrees 0 (\<lambda>k. 1 / 2) SceneController) = None"
    and c1: "fst (spawnTrees 1 (\<lambda>k. 1 / 2) SceneController) = None"
    and c50: "fst (spawnTrees 50 (\<lambda>k. 1 / 2) SceneController) = None"
    and c500: "fst (spawnTrees 500 (\<lambda>k. 1 / 2) SceneController) = None"
    and c50': "fst (spawnTrees 50 (\<lambda>k. 1 / 2)
                 (snd (spawnTrees 500 (\<lambda>k. 1 / 2) SceneController))) = None"
    using spawnTrees_population [of SceneController 0 "\<lambda>k. 1 / 2"]
      spawnTrees_population [of SceneController 1 "\<lambda>k. 1 / 2"]
      spawnTrees_population [of SceneController 50 "\<lambda>k. 1 / 2"]
      spawnTrees_population [of SceneController 500 "\<lambda>k. 1 / 2"]
      spawnTrees_population [of "snd (spawnTrees 500 (\<lambda>k. 1 / 2) SceneController)" 50 "\<lambda>k. 1 / 2"]
    by simp_all
  have r: "\<forall>k::nat. (0 :: real) \<le> 1 / 2 \<and> (1 / 2 :: real) < 1" by simp
  note a0 = spawnTrees_population [of SceneController 0 "\<lambda>k. 1 / 2", THEN conjunct1, rule_format,
      OF conjI [OF scene_inv_init conjI [OF _ c0]]]
  note a1 = spawnTrees_population [of SceneController 1 "\<lambda>k. 1 / 2", THEN conjunct1, rule_format,
      OF conjI [OF scene_inv_init conjI [OF _ c1]]]
  note a50 = spawnTrees_population [of SceneController 50 "\<lambda>k. 1 / 2", THEN conjunct1, rule_format,
      OF conjI [OF scene_inv_init conjI [OF _ c50]]]
  note a500 = spawnTrees_population [of SceneController 500 "\<lambda>k. 1 / 2", THEN conjunct1, rule_format,
      OF conjI [OF scene_inv_init conjI [OF _ c500]]]
  have i500: "scene_inv (snd (spawnTrees 500 (\<lambda>k. 1 / 2) SceneController))"
    using a500 by simp
  note b50 = spawnTrees_population [of "snd (spawnTrees 500 (\<lambda>k. 1 / 2) SceneController)" 50
      "\<lambda>k. 1 / 2", THEN conjunct1, rule_format, OF conjI [OF i500 conjI [OF _ c50']]]
  have m: "\<exists>trunk foliage mt mf.
         treeInstancedMesh (snd (spawnTrees 500 (\<lambda>k. 1 / 2) SceneController)) = Some (trunk, foliage)
       \<and> mesh_at (objects (snd (spawnTrees 500 (\<lambda>k. 1 / 2) SceneController))) trunk = Some mt
       \<and> mesh_at (objects (snd (spawnTrees 500 (\<lambda>k. 1 / 2) SceneController))) foliage = Some mf
       \<and> length (instanceMatrix mt) = 500 \<and> length (instanceMatrix mf) = 500
       \<and> list_all well_placed (instanceMatrix mt)
       \<and> list_all well_placed (instanceMatrix mf)"
    using a500 r by fastforce
  show ?thesis
    using scene_inv_init c0 c1 c50 c500 a0 a1 a50 a500 b50 m by simp
qed

text \<open>
  C6, as stated, fails. With two trees in the scene, \<open>spawnTrees(-1)\<close> ends with the
  \<open>RangeError\<close> of the allocation, but the state is not the one before the call: the two
  batches that were built and drawn are no longer the population of the scene, which now
  costs no draw call at all.
\<close>

theorem spawnTrees_failure_discards_population:
  "population_built 2 two_trees
   \<and> populationDrawCalls two_trees = 2
   \<and> currentTreeCount two_trees = 2
   \<and> fst (spawnTrees (- 1) (\<lambda>k. 1 / 2) two_trees) = Some RangeError
   \<and> snd (spawnTrees (- 1) (\<lambda>k. 1 / 2) two_trees) \<noteq> two_trees
   \<and> \<not> population_built 2 (snd (spawnTrees (- 1) (\<lambda>k. 1 / 2) two_trees))
   \<and> populationDrawCalls (snd (spawnTrees (- 1) (\<lambda>k. 1 / 2) two_trees)) = 0"
  by code_simp

text \<open>
  C6, amended. When the allocation fails (a negative count), \<open>spawnTrees\<close> ends with the
  exception and leaves the state that its cleanup block produced: the count and the field
  \<open>treeInstancedMesh\<close> are as before, but the previous trunk and foliage batches are no
  longer children of the scene, their geometry and material are disposed, and the scene
  holds no instanced mesh. Only without a previous population is the state unchanged.
\<close>

theorem spawnTrees_allocation_failure:
  assumes "n < 0" "scene_inv st"
  shows "fst (spawnTrees n rnd st) = Some RangeError
       \<and> snd (spawnTrees n rnd st) = cleanup st
       \<and> currentTreeCount (snd (spawnTrees n rnd st)) = currentTreeCount st
       \<and> treeInstancedMesh (snd (spawnTrees n rnd st)) = treeInstancedMesh st
       \<and> populationDrawCalls (snd (spawnTrees n rnd st)) = 0
       \<and> scene_inv (snd (spawnTrees n rnd st))
       \<and> (case treeInstancedMesh st of
             None \<Rightarrow> snd (spawnTrees n rnd st) = st
           | Some (trunk, foliage) \<Rightarrow>
               trunk \<notin> set (children (snd (spawnTrees n rnd st)))
             \<and> foliage \<notin> set (children (snd (spawnTrees n rnd st)))
             \<and> mesh_at (objects (snd (spawnTrees n rnd st))) trunk
                 = map_option dispose (mesh_at (objects st) trunk)
             \<and> mesh_at (objects (snd (spawnTrees n rnd st))) foliage
                 = map_option dispose (mesh_at (objects st) foliage))"
proof -
  have res: "spawnTrees n rnd st = (Some RangeError, cleanup st)"
    by (simp add: spawnTrees_def spawnTrees_trace_def build_batches_fail [OF assms(1)] Let_def)
  have pb: "population_batches (cleanup st) = []"
    by (rule cleanup_batches(1) [OF assms(2)])
  have last: "case treeInstancedMesh st of
             None \<Rightarrow> cleanup st = st
           | Some (trunk, foliage) \<Rightarrow>
               trunk \<notin> set (children (cleanup st))
             \<and> foliage \<notin> set (children (cleanup st))
             \<and> mesh_at (objects (cleanup st)) trunk = map_option dispose (mesh_at (objects st) trunk)
             \<and> mesh_at (objects (cleanup st)) foliage = map_option dispose (mesh_at (objects st) foliage)"
  proof (cases "treeInstancedMesh st")
    case None
    then show ?thesis by (simp add: cleanup_def)
  next
    case (Some tf)
    obtain t f where tf: "tf = (t, f)" by (cases tf)
    have ins: "is_instanced (objects st) t" "is_instanced (objects st) f"
      using assms(2) Some tf by (simp_all add: scene_inv_def)
    have same: "is_instanced (objects (cleanup st)) = is_instanced (objects st)"
      by (rule ext)
        (simp add: cleanup_def scene_remove_def dispose_at_props Let_def split: option.splits prod.splits)
    have "\<forall>x \<in> set (children (cleanup st)). \<not> is_instanced (objects (cleanup st)) x"
      using pb by (simp add: population_batches_def filter_empty_conv)
    then have notin: "t \<notin> set (children (cleanup st))" "f \<notin> set (children (cleanup st))"
      using ins same by auto
    have objs: "objects (cleanup st) = dispose_at f (dispose_at t (objects st))"
      using Some tf by (simp add: cleanup_def scene_remove_def Let_def)
    have "mesh_at (objects (cleanup st)) t = map_option dispose (mesh_at (objects st) t)"
      "mesh_at (objects (cleanup st)) f = map_option dispose (mesh_at (objects st) f)"
      by (simp_all add: objs mesh_at_dispose_at option.map_comp comp_def dispose_idem)
    then show ?thesis
      using notin Some tf by simp
  qed
  have same': "is_instanced (objects (cleanup st)) = is_instanced (objects st)"
    by (rule ext)
      (simp add: cleanup_def scene_remove_def dispose_at_props Let_def split: option.splits prod.splits)
  have inv': "scene_inv (cleanup st)"
    using assms(2) cleanup_batches [OF assms(2)]
    by (auto simp: scene_inv_def cleanup_fields same' split: option.splits)
  show ?thesis
    unfolding res fst_conv snd_conv
    using pb last inv' by (simp add: cleanup_fields populationDrawCalls_def)
qed

theorem spawnTrees_allocation_failure_witness:
  "(- 1 :: int) < 0 \<and> scene_inv two_trees
   \<and> fst (spawnTrees (- 1) (\<lambda>k. 1 / 2) two_trees) = Some RangeError
   \<and> currentTreeCount (snd (spawnTrees (- 1) (\<lambda>k. 1 / 2) two_trees)) = 2
   \<and> treeInstancedMesh (snd (spawnTrees (- 1) (\<lambda>k. 1 / 2) two_trees)) = Some (0, 1)
   \<and> populationDrawCalls (snd (spawnTrees (- 1) (\<lambda>k. 1 / 2) two_trees)) = 0"
proof -
  have i: "scene_inv two_trees"
    unfolding two_trees_def
    using spawnTrees_result [OF scene_inv_init, of 2 "\<lambda>k. 1 / 2"] by simp
  have c: "currentTreeCount two_trees = 2" "treeInstancedMesh two_trees = Some (0, 1)"
    by code_simp+
  have f: "fst (spawnTrees (- 1) (\<lambda>k. 1 / 2) two_trees) = Some RangeError
     \<and> currentTreeCount (snd (spawnTrees (- 1) (\<lambda>k. 1 / 2) two_trees)) = currentTreeCount two_trees
     \<and> treeInstancedMesh (snd (spawnTrees (- 1) (\<lambda>k. 1 / 2) two_trees)) = treeInstancedMesh two_trees
     \<and> populationDrawCalls (snd (spawnTrees (- 1) (\<lambda>k. 1 / 2) two_trees)) = 0"
    using spawnTrees_allocation_failure [of "- 1" two_trees "\<lambda>k. 1 / 2"] i
    by fastforce
  show ?thesis
    using f i c by simp
qed

section \<open>The parameter extractor: theorems\<close>

lemma digit_value_nonneg: "is_digit ch \<Longrightarrow> 0 \<le> digit_value ch"
  by (simp add: is_digit_def digit_value_def)

lemma foldl_digits_nonneg:
  "0 \<le> a \<Longrightarrow> list_all is_digit ds \<Longrightarrow> 0 \<le> foldl (\<lambda>a ch. 10 * a + digit_value ch) a ds"
proof (induction ds arbitrary: a)
  case Nil
  then show ?case by simp
next
  case (Cons d ds)
  have "0 \<le> 10 * a + digit_value d"
    using Cons.prems digit_value_nonneg [of d] by simp
  then show ?case
    using Cons.IH [of "10 * a + digit_value d"] Cons.prems by simp
qed

lemma parseInt10_nonneg: "0 \<le> parseInt10 s"
proof -
  have "list_all is_digit (takeWhile is_digit s)"
    by (induction s) simp_all
  then show ?thesis
    unfolding parseInt10_def by (rule foldl_digits_nonneg [OF order_refl])
qed

lemma extractLimit_nonneg: "extractLimitFromCondition cond = Some n \<Longrightarrow> 0 \<le> n"
  using parseInt10_nonneg
  by (auto simp: extractLimitFromCondition_def split: option.splits)

lemma addPerformanceWarnings_keeps:
  "valid (addPerformanceWarnings r) = valid r"
  "limit (addPerformanceWarnings r) = limit r"
  "errors (addPerformanceWarnings r) = errors r"
  by (simp_all add: addPerformanceWarnings_def split: option.splits)

lemma addPerformanceWarnings_more:
  "pattern (addPerformanceWarnings r) = pattern r"
  "condition (addPerformanceWarnings r) = condition r"
  "CappedAt k \<in> set (warnings (addPerformanceWarnings r)) = (CappedAt k \<in> set (warnings r))"
  "SafetyCap k \<in> set (warnings (addPerformanceWarnings r)) = (SafetyCap k \<in> set (warnings r))"
  by (auto simp: addPerformanceWarnings_def split: option.splits)

lemma valid_limit:
  "valid (parseStudentCode code) \<Longrightarrow>
   \<exists>n. limit (parseStudentCode code) = Some n \<and> 0 \<le> n \<and> n \<le> 1000"
  using parseInt10_nonneg
  by (auto simp: parseStudentCode_def Let_def addPerformanceWarnings_keeps maxTreeLimit_def
           dest: extractLimit_nonneg split: option.splits if_splits)

text \<open>
  C10. Whatever the text, a result that \<open>parseStudentCode\<close> marks valid carries a limit
  that is a number (not \<open>null\<close>) between 0 and the safety cap 1000. So the count that
  \<open>execute\<close> hands to \<open>spawnTrees\<close> is always within these bounds: \<open>execute\<close> succeeds
  exactly on the valid texts, then leaves that count in the scene, and otherwise leaves the
  scene alone.
\<close>

theorem parse_valid_limit_bounded:
  "(valid (parseStudentCode code) \<longrightarrow>
      (\<exists>n. limit (parseStudentCode code) = Some n \<and> 0 \<le> n \<and> n \<le> 1000))
   \<and> (\<forall>n. requested_count code = Some n \<longrightarrow> 0 \<le> n \<and> n \<le> 1000)
   \<and> (scene_inv sc \<longrightarrow>
        (case execute code rnd ex sc of (r, ex', sc') \<Rightarrow>
           success r = valid (parseStudentCode code)
           \<and> (if success r
               then 0 \<le> treeCount r \<and> treeCount r \<le> 1000
                    \<and> currentTreeCount sc' = treeCount r \<and> scene_inv sc'
               else sc' = sc)))"
proof -
  have rq: "0 \<le> n \<and> n \<le> 1000" if "requested_count code = Some n" for n
    using that valid_limit [of code]
    by (auto simp: requested_count_def Let_def split: if_splits)
  have ex: "case execute code rnd ex sc of (r, ex', sc') \<Rightarrow>
           success r = valid (parseStudentCode code)
           \<and> (if success r
               then 0 \<le> treeCount r \<and> treeCount r \<le> 1000
                    \<and> currentTreeCount sc' = treeCount r \<and> scene_inv sc'
               else sc' = sc)"
    if inv: "scene_inv sc"
  proof (cases "requested_count code")
    case None
    then have "\<not> valid (parseStudentCode code)"
      using valid_limit [of code] by (auto simp: requested_count_def Let_def split: if_splits)
    then show ?thesis
      using None by (simp add: execute_def Let_def)
  next
    case (Some n)
    then have v: "valid (parseStudentCode code)"
      by (auto simp: requested_count_def Let_def split: if_splits)
    have n: "0 \<le> n" "n \<le> 1000" using rq [OF Some] by simp_all
    obtain sc' where s: "spawnTrees n rnd sc = (None, sc')"
      "currentTreeCount sc' = n" "scene_inv sc'"
      using spawnTrees_result [OF inv n(1), of rnd]
      by (cases "spawnTrees n rnd sc") auto
    show ?thesis
      using v n s by (simp add: execute_def Let_def Some)
  qed
  show ?thesis
    using valid_limit rq ex by blast
qed

theorem parse_valid_limit_bounded_witness:
  "valid (parseStudentCode ''while (treeCount <= 99999) { SpawnTree(); }'')
   \<and> requested_count ''while (treeCount <= 99999) { SpawnTree(); }'' = Some 1000
   \<and> scene_inv SceneController
   \<and> (\<exists>n. limit (parseStudentCode ''while (treeCount <= 99999) { SpawnTree(); }'') = Some n
        \<and> 0 \<le> n \<and> n \<le> 1000)
   \<and> success (fst (execute ''while (treeCount <= 99999) { SpawnTree(); }'' (\<lambda>k. 1 / 2)
                  CodeExecutor SceneController))"
proof -
  have v: "valid (parseStudentCode ''while (treeCount <= 99999) { SpawnTree(); }'')"
    by code_simp
  have r: "requested_count ''while (treeCount <= 99999) { SpawnTree(); }'' = Some 1000"
    by code_simp
  show ?thesis
    using v r scene_inv_init
      parse_valid_limit_bounded [of "''while (treeCount <= 99999) { SpawnTree(); }''"
        SceneController "\<lambda>k. 1 / 2" CodeExecutor]
    by (auto split: prod.splits if_splits)
qed

lemma trim_id:
  assumes "s \<noteq> []" "\<not> is_space (hd s)" "\<not> is_space (last s)"
  shows "trim s = s"
proof -
  have a: "dropWhile is_space s = s" using assms(1,2) by (cases s) auto
  have "rev s \<noteq> []" "\<not> is_space (hd (rev s))"
    using assms(1,3) by (simp_all add: hd_rev)
  then have b: "dropWhile is_space (rev s) = rev s" by (cases "rev s") auto
  show ?thesis by (simp add: trim_def a b)
qed

lemma parse_while:
  assumes c: "cond \<noteq> []"
      "list_all (\<lambda>ch. \<not> is_line_terminator ch \<and> ch \<noteq> CHR '')'' \<and> ch \<noteq> CHR ''/'') cond"
      "\<not> is_space (hd cond)" "\<not> is_space (last cond)"
    and r: "CHR ''/'' \<notin> set rest"
    and e: "extractLimitFromCondition cond = Some lmt"
  shows "valid (parseStudentCode (''while ('' @ cond @ '')'' @ rest))"
    and "limit (parseStudentCode (''while ('' @ cond @ '')'' @ rest)) = Some (min lmt 1000)"
    and "pattern (parseStudentCode (''while ('' @ cond @ '')'' @ rest)) = Some While"
    and "condition (parseStudentCode (''while ('' @ cond @ '')'' @ rest)) = Some cond"
proof -
  let ?code = "''while ('' @ cond @ '')'' @ rest"
  have c2: "list_all (\<lambda>ch. \<not> is_line_terminator ch) cond" "CHR '')'' \<notin> set cond"
    "CHR ''/'' \<notin> set cond"
    using c(2) by (auto simp: list_all_iff)
  have "CHR ''/'' \<notin> set ?code" using c2(3) r by simp
  then have s: "stripComments ?code = ?code" by (rule stripComments_id)
  have m: "rx_match False while_re ?code = Some [(1, cond)]"
    by (rule while_match [OF c(1) c2(1,2) c(3,4)])
  have t: "trim (group [(1, cond)] 1) = cond"
    using trim_id [OF c(1,3,4)] by (simp add: group_def)
  show "valid (parseStudentCode ?code)"
    and "limit (parseStudentCode ?code) = Some (min lmt 1000)"
    and "pattern (parseStudentCode ?code) = Some While"
    and "condition (parseStudentCode ?code) = Some cond"
    unfolding parseStudentCode_def Let_def s m option.case t e
    by (simp_all add: addPerformanceWarnings_keeps addPerformanceWarnings_more maxTreeLimit_def)
qed


lemma word_plain:
  "is_word ch \<Longrightarrow> \<not> is_line_terminator ch \<and> ch \<noteq> CHR '')'' \<and> ch \<noteq> CHR ''/''"
  by (auto simp: is_word_def is_line_terminator_def Let_def)

lemma space_plain: "is_space ch \<Longrightarrow> ch \<noteq> CHR '')'' \<and> ch \<noteq> CHR ''/''"
  by (auto simp: is_space_def Let_def)

lemma cmp_plain:
  assumes "list_all is_word xs" "list_all is_word ys"
    and "list_all (\<lambda>ch. is_space ch \<and> \<not> is_line_terminator ch) sp1"
    and "list_all (\<lambda>ch. is_space ch \<and> \<not> is_line_terminator ch) sp2"
    and "opr \<in> {''<'', ''<='', ''>'', ''>=''}"
  shows "list_all (\<lambda>ch. \<not> is_line_terminator ch \<and> ch \<noteq> CHR '')'' \<and> ch \<noteq> CHR ''/'')
           (xs @ sp1 @ opr @ sp2 @ ys)"
proof -
  let ?Q = "\<lambda>ch. \<not> is_line_terminator ch \<and> ch \<noteq> CHR '')'' \<and> ch \<noteq> CHR ''/''"
  have o: "list_all ?Q opr"
    using assms(5) by (elim insertE emptyE) (simp_all add: is_line_terminator_def)
  have x: "list_all ?Q xs"
    by (rule list.pred_mono_strong [OF assms(1)]) (simp add: word_plain)
  have y: "list_all ?Q ys"
    by (rule list.pred_mono_strong [OF assms(2)]) (simp add: word_plain)
  have s1: "list_all ?Q sp1"
    by (rule list.pred_mono_strong [OF assms(3)]) (simp add: space_plain)
  have s2: "list_all ?Q sp2"
    by (rule list.pred_mono_strong [OF assms(4)]) (simp add: space_plain)
  show ?thesis
    using o x y s1 s2 by (simp only: list_all_append simp_thms)
qed

lemma parse_while_cmp:
  assumes i: "ident \<noteq> []" "list_all is_word ident"
    and s: "list_all (\<lambda>ch. is_space ch \<and> \<not> is_line_terminator ch) sp1"
      "list_all (\<lambda>ch. is_space ch \<and> \<not> is_line_terminator ch) sp2"
    and r: "CHR ''/'' \<notin> set rest"
  shows "valid (parseStudentCode (''while ('' @ (ident @ sp1 @ ''<'' @ sp2 @ decimal n) @ '')'' @ rest))"
    and "limit (parseStudentCode (''while ('' @ (ident @ sp1 @ ''<'' @ sp2 @ decimal n) @ '')'' @ rest))
           = Some (min (int n) 1000)"
    and "valid (parseStudentCode (''while ('' @ (ident @ sp1 @ ''<='' @ sp2 @ decimal n) @ '')'' @ rest))"
    and "limit (parseStudentCode (''while ('' @ (ident @ sp1 @ ''<='' @ sp2 @ decimal n) @ '')'' @ rest))
           = Some (min (int n + 1) 1000)"
    and "valid (parseStudentCode (''while ('' @ (decimal n @ sp1 @ ''>'' @ sp2 @ ident) @ '')'' @ rest))"
    and "limit (parseStudentCode (''while ('' @ (decimal n @ sp1 @ ''>'' @ sp2 @ ident) @ '')'' @ rest))
           = Some (min (int n) 1000)"
    and "valid (parseStudentCode (''while ('' @ (decimal n @ sp1 @ ''>='' @ sp2 @ ident) @ '')'' @ rest))"
    and "limit (parseStudentCode (''while ('' @ (decimal n @ sp1 @ ''>='' @ sp2 @ ident) @ '')'' @ rest))
           = Some (min (int n + 1) 1000)"
proof -
  have d: "decimal n \<noteq> []" "list_all is_digit (decimal n)"
    using decimal_digits by simp_all
  have dw: "list_all is_word (decimal n)"
    using d(2) digit_is_word by (auto simp: list_all_iff)
  have sp: "list_all is_space sp1" "list_all is_space sp2"
    using s by (auto simp: list_all_iff)
  have hi: "\<not> is_space (hd ident)" "\<not> is_space (last ident)"
    using i word_not_space by (auto simp: list_all_iff)
  have hd: "\<not> is_space (hd (decimal n))" "\<not> is_space (last (decimal n))"
    using d digit_not_space by (auto simp: list_all_iff)
  have e: "extractLimitFromCondition (ident @ sp1 @ ''<'' @ sp2 @ decimal n) = Some (int n)"
    "extractLimitFromCondition (ident @ sp1 @ ''<='' @ sp2 @ decimal n) = Some (int n + 1)"
    "extractLimitFromCondition (decimal n @ sp1 @ ''>'' @ sp2 @ ident) = Some (int n)"
    "extractLimitFromCondition (decimal n @ sp1 @ ''>='' @ sp2 @ ident) = Some (int n + 1)"
    using extract_lt [OF i d sp] extract_le [OF i d sp] extract_gt [OF i d sp]
      extract_ge [OF i d sp]
    by (simp_all only: parseInt10_decimal)
  have l: "ident @ sp1 @ opr @ sp2 @ decimal n \<noteq> []"
    "\<not> is_space (hd (ident @ sp1 @ opr @ sp2 @ decimal n))"
    "\<not> is_space (last (ident @ sp1 @ opr @ sp2 @ decimal n))" for opr
    using i(1) d(1) hi hd by simp_all
  have g: "decimal n @ sp1 @ opr @ sp2 @ ident \<noteq> []"
    "\<not> is_space (hd (decimal n @ sp1 @ opr @ sp2 @ ident))"
    "\<not> is_space (last (decimal n @ sp1 @ opr @ sp2 @ ident))" for opr
    using i(1) d(1) hi hd by simp_all
  note pl = cmp_plain [OF i(2) dw s]
  note pg = cmp_plain [OF dw i(2) s]
  show "valid (parseStudentCode (''while ('' @ (ident @ sp1 @ ''<'' @ sp2 @ decimal n) @ '')'' @ rest))"
    and "limit (parseStudentCode (''while ('' @ (ident @ sp1 @ ''<'' @ sp2 @ decimal n) @ '')'' @ rest))
           = Some (min (int n) 1000)"
    using parse_while [OF l(1) pl l(2,3) r e(1)] by simp_all
  show "valid (parseStudentCode (''while ('' @ (ident @ sp1 @ ''<='' @ sp2 @ decimal n) @ '')'' @ rest))"
    and "limit (parseStudentCode (''while ('' @ (ident @ sp1 @ ''<='' @ sp2 @ decimal n) @ '')'' @ rest))
           = Some (min (int n + 1) 1000)"
    using parse_while [OF l(1) pl l(2,3) r e(2)] by simp_all
  show "valid (parseStudentCode (''while ('' @ (decimal n @ sp1 @ ''>'' @ sp2 @ ident) @ '')'' @ rest))"
    and "limit (parseStudentCode (''while ('' @ (decimal n @ sp1 @ ''>'' @ sp2 @ ident) @ '')'' @ rest))
           = Some (min (int n) 1000)"
    using parse_while [OF g(1) pg g(2,3) r e(3)] by simp_all
  show "valid (parseStudentCode (''while ('' @ (decimal n @ sp1 @ ''>='' @ sp2 @ ident) @ '')'' @ rest))"
    and "limit (parseStudentCode (''while ('' @ (decimal n @ sp1 @ ''>='' @ sp2 @ ident) @ '')'' @ rest))
           = Some (min (int n + 1) 1000)"
    using parse_while [OF g(1) pg g(2,3) r e(4)] by simp_all
qed

lemma no_slash:
  "list_all is_space xs \<Longrightarrow> CHR ''/'' \<notin> set xs"
  "list_all is_word xs \<Longrightarrow> CHR ''/'' \<notin> set xs"
  "list_all is_digit xs \<Longrightarrow> CHR ''/'' \<notin> set xs"
proof -
  show "list_all is_space xs \<Longrightarrow> CHR ''/'' \<notin> set xs"
    using space_plain [of "CHR ''/''"] by (auto simp: list_all_iff)
  show w: "list_all is_word xs \<Longrightarrow> CHR ''/'' \<notin> set xs" for xs
    using word_plain [of "CHR ''/''"] by (auto simp: list_all_iff)
  show "list_all is_digit xs \<Longrightarrow> CHR ''/'' \<notin> set xs"
    using word_plain [of "CHR ''/''"] digit_is_word [of "CHR ''/''"] by (auto simp: list_all_iff)
qed

lemma parse_for:
  assumes init: "init \<noteq> []" "CHR '';'' \<notin> set init" "CHR ''/'' \<notin> set init"
    and sp: "list_all is_space sp0" "list_all is_space sp1" "list_all is_space sp2"
    and i: "ident \<noteq> []" "list_all is_word ident"
    and r: "rest = [] \<or> \<not> is_digit (hd rest)" "CHR ''/'' \<notin> set rest"
    and o: "opr = ''<'' \<or> opr = ''<=''"
    and w: "rx_match False while_re
              (''for ('' @ init @ '';'' @ sp0 @ ident @ sp1 @ opr @ sp2 @ decimal n @ rest) = None"
  shows "valid (parseStudentCode
           (''for ('' @ init @ '';'' @ sp0 @ ident @ sp1 @ opr @ sp2 @ decimal n @ rest))"
    and "limit (parseStudentCode
           (''for ('' @ init @ '';'' @ sp0 @ ident @ sp1 @ opr @ sp2 @ decimal n @ rest))
         = Some (min (if opr = ''<='' then int n + 1 else int n) 1000)"
    and "pattern (parseStudentCode
           (''for ('' @ init @ '';'' @ sp0 @ ident @ sp1 @ opr @ sp2 @ decimal n @ rest))
         = Some For"
proof -
  let ?code = "''for ('' @ init @ '';'' @ sp0 @ ident @ sp1 @ opr @ sp2 @ decimal n @ rest"
  have d: "decimal n \<noteq> []" "list_all is_digit (decimal n)"
    using decimal_digits by simp_all
  have "CHR ''/'' \<notin> set opr" using o by auto
  then have "CHR ''/'' \<notin> set ?code"
    using init(3) r(2) no_slash(1) [OF sp(1)] no_slash(1) [OF sp(2)] no_slash(1) [OF sp(3)]
      no_slash(2) [OF i(2)] no_slash(3) [OF d(2)]
    by simp
  then have s: "stripComments ?code = ?code" by (rule stripComments_id)
  have m: "rx_match False for_re ?code = Some [(2, decimal n), (1, opr)]"
    by (rule for_match [OF init(1,2) sp i d r(1) o])
  have g: "group [(2, decimal n), (1, opr)] 1 = opr" "group [(2, decimal n), (1, opr)] 2 = decimal n"
    by (simp_all add: group_def)
  show "valid (parseStudentCode ?code)"
    and "limit (parseStudentCode ?code) = Some (min (if opr = ''<='' then int n + 1 else int n) 1000)"
    and "pattern (parseStudentCode ?code) = Some For"
    unfolding parseStudentCode_def Let_def s w m option.case g parseInt10_decimal
    by (simp_all add: addPerformanceWarnings_keeps addPerformanceWarnings_more maxTreeLimit_def)
qed

lemma parse_assign:
  assumes nm: "name = ''maxTrees'' \<or> name = ''treeCount'' \<or> name = ''count''"
    and sp: "list_all is_space sp1" "list_all is_space sp2"
    and r: "rest = [] \<or> \<not> is_digit (hd rest)" "CHR ''/'' \<notin> set rest"
    and w: "rx_match False while_re (name @ sp1 @ ''='' @ sp2 @ decimal n @ rest) = None"
    and f: "rx_match False for_re (name @ sp1 @ ''='' @ sp2 @ decimal n @ rest) = None"
  shows "valid (parseStudentCode (name @ sp1 @ ''='' @ sp2 @ decimal n @ rest))"
    and "limit (parseStudentCode (name @ sp1 @ ''='' @ sp2 @ decimal n @ rest))
         = Some (min (int n) 1000)"
    and "pattern (parseStudentCode (name @ sp1 @ ''='' @ sp2 @ decimal n @ rest)) = Some Assignment"
proof -
  let ?code = "name @ sp1 @ ''='' @ sp2 @ decimal n @ rest"
  have d: "decimal n \<noteq> []" "list_all is_digit (decimal n)"
    using decimal_digits by simp_all
  have "CHR ''/'' \<notin> set name" using nm by auto
  then have "CHR ''/'' \<notin> set ?code"
    using r(2) no_slash(1) [OF sp(1)] no_slash(1) [OF sp(2)] no_slash(3) [OF d(2)]
    by simp
  then have s: "stripComments ?code = ?code" by (rule stripComments_id)
  have m: "rx_match True assign_re ?code = Some [(2, decimal n), (1, name)]"
    by (rule assign_match [OF nm sp d r(1)])
  have g: "group [(2, decimal n), (1, name)] 1 = name" "group [(2, decimal n), (1, name)] 2 = decimal n"
    by (simp_all add: group_def)
  show "valid (parseStudentCode ?code)"
    and "limit (parseStudentCode ?code) = Some (min (int n) 1000)"
    and "pattern (parseStudentCode ?code) = Some Assignment"
    unfolding parseStudentCode_def Let_def s w f m option.case g parseInt10_decimal
    by (simp_all add: addPerformanceWarnings_keeps addPerformanceWarnings_more maxTreeLimit_def)
qed

text \<open>
  C2. Each canonical form is accepted with the limit 50: the loops \<open>while (treeCount < 50)\<close>,
  \<open>while (treeCount <= 49)\<close> and \<open>while (50 > treeCount)\<close>, the loop \<open>for(...;i<50;...)\<close>
  (also written out as \<open>for (int i = 0; i < 50; i++)\<close>, and with \<open>i <= 49\<close>) and the
  assignment \<open>maxTrees = 50\<close>. In general, for every identifier and every natural number
  \<open>n\<close> below \<open>2 ^ 53\<close> written in decimal (the numbers that the doubles of the program hold
  exactly, \<open>n + 1\<close> included):
  \<^item> \<open>extractLimitFromCondition\<close> yields \<open>n\<close> for \<open>IDENT < n\<close> and for \<open>n > IDENT\<close>, and \<open>n + 1\<close>
    for \<open>IDENT <= n\<close> and for \<open>n >= IDENT\<close>, with any white space around the operator;
  \<^item> \<open>parseStudentCode\<close> accepts \<open>while (\<close>condition\<open>)\<close> with each of these four conditions, with
    blanks around the operator and any text without a comment after the loop head, and
    its limit is that number, cut at the cap of 1000;
  \<^item> \<open>parseStudentCode\<close> accepts \<open>for (\<close>init\<open>; IDENT < n\<close> with the limit \<open>n\<close> and
    \<open>for (\<close>init\<open>; IDENT <= n\<close> with the limit \<open>n + 1\<close>, cut at the cap, in a text where no
    \<open>while\<close> loop is found, which would come first;
  \<^item> \<open>parseStudentCode\<close> accepts the assignment of \<open>n\<close> to \<open>maxTrees\<close>, \<open>treeCount\<close> or
    \<open>count\<close> with the limit \<open>n\<close>, cut at the cap, in a text where neither loop is found.
\<close>

theorem extractor_round_trip:
  "valid (parseStudentCode ''while (treeCount < 50) { }'')
   \<and> limit (parseStudentCode ''while (treeCount < 50) { }'') = Some 50
   \<and> valid (parseStudentCode ''while (treeCount <= 49) { }'')
   \<and> limit (parseStudentCode ''while (treeCount <= 49) { }'') = Some 50
   \<and> valid (parseStudentCode ''while (50 > treeCount) { }'')
   \<and> limit (parseStudentCode ''while (50 > treeCount) { }'') = Some 50
   \<and> valid (parseStudentCode ''for(...;i<50;...)'')
   \<and> limit (parseStudentCode ''for(...;i<50;...)'') = Some 50
   \<and> valid (parseStudentCode ''for (int i = 0; i < 50; i++) { }'')
   \<and> limit (parseStudentCode ''for (int i = 0; i < 50; i++) { }'') = Some 50
   \<and> valid (parseStudentCode ''for (int i = 0; i <= 49; i++) { }'')
   \<and> limit (parseStudentCode ''for (int i = 0; i <= 49; i++) { }'') = Some 50
   \<and> valid (parseStudentCode ''maxTrees = 50'')
   \<and> limit (parseStudentCode ''maxTrees = 50'') = Some 50
   \<and> (ident \<noteq> [] \<and> list_all is_word ident \<and> list_all is_space sp1 \<and> list_all is_space sp2
        \<and> n < 2 ^ 53 \<longrightarrow>
        extractLimitFromCondition (ident @ sp1 @ ''<'' @ sp2 @ decimal n) = Some (int n)
      \<and> extractLimitFromCondition (ident @ sp1 @ ''<='' @ sp2 @ decimal n) = Some (int n + 1)
      \<and> extractLimitFromCondition (decimal n @ sp1 @ ''>'' @ sp2 @ ident) = Some (int n)
      \<and> extractLimitFromCondition (decimal n @ sp1 @ ''>='' @ sp2 @ ident) = Some (int n + 1))
   \<and> (ident \<noteq> [] \<and> list_all is_word ident
        \<and> list_all (\<lambda>ch. is_space ch \<and> \<not> is_line_terminator ch) sp1
        \<and> list_all (\<lambda>ch. is_space ch \<and> \<not> is_line_terminator ch) sp2
        \<and> CHR ''/'' \<notin> set rest \<and> n < 2 ^ 53 \<longrightarrow>
        valid (parseStudentCode (''while ('' @ (ident @ sp1 @ ''<'' @ sp2 @ decimal n) @ '')'' @ rest))
      \<and> limit (parseStudentCode (''while ('' @ (ident @ sp1 @ ''<'' @ sp2 @ decimal n) @ '')'' @ rest))
          = Some (min (int n) 1000)
      \<and> valid (parseStudentCode (''while ('' @ (ident @ sp1 @ ''<='' @ sp2 @ decimal n) @ '')'' @ rest))
      \<and> limit (parseStudentCode (''while ('' @ (ident @ sp1 @ ''<='' @ sp2 @ decimal n) @ '')'' @ rest))
          = Some (min (int n + 1) 1000)
      \<and> valid (parseStudentCode (''while ('' @ (decimal n @ sp1 @ ''>'' @ sp2 @ ident) @ '')'' @ rest))
      \<and> limit (parseStudentCode (''while ('' @ (decimal n @ sp1 @ ''>'' @ sp2 @ ident) @ '')'' @ rest))
          = Some (min (int n) 1000)
      \<and> valid (parseStudentCode (''while ('' @ (decimal n @ sp1 @ ''>='' @ sp2 @ ident) @ '')'' @ rest))
      \<and> limit (parseStudentCode (''while ('' @ (decimal n @ sp1 @ ''>='' @ sp2 @ ident) @ '')'' @ rest))
          = Some (min (int n + 1) 1000))
   \<and> (init \<noteq> [] \<and> CHR '';'' \<notin> set init \<and> CHR ''/'' \<notin> set init
        \<and> list_all is_space sp0 \<and> list_all is_space sp1 \<and> list_all is_space sp2
        \<and> ident \<noteq> [] \<and> list_all is_word ident
        \<and> (rest = [] \<or> \<not> is_digit (hd rest)) \<and> CHR ''/'' \<notin> set rest \<and> n < 2 ^ 53
        \<and> rx_match False while_re
             (''for ('' @ init @ '';'' @ sp0 @ ident @ sp1 @ ''<'' @ sp2 @ decimal n @ rest) = None \<longrightarrow>
        valid (parseStudentCode
                 (''for ('' @ init @ '';'' @ sp0 @ ident @ sp1 @ ''<'' @ sp2 @ decimal n @ rest))
      \<and> limit (parseStudentCode
                 (''for ('' @ init @ '';'' @ sp0 @ ident @ sp1 @ ''<'' @ sp2 @ decimal n @ rest))
          = Some (min (int n) 1000))
   \<and> (init \<noteq> [] \<and> CHR '';'' \<notin> set init \<and> CHR ''/'' \<notin> set init
        \<and> list_all is_space sp0 \<and> list_all is_space sp1 \<and> list_all is_space sp2
        \<and> ident \<noteq> [] \<and> list_all is_word ident
        \<and> (rest = [] \<or> \<not> is_digit (hd rest)) \<and> CHR ''/'' \<notin> set rest \<and> n < 2 ^ 53
        \<and> rx_match False while_re
             (''for ('' @ init @ '';'' @ sp0 @ ident @ sp1 @ ''<='' @ sp2 @ decimal n @ rest) = None \<longrightarrow>
        valid (parseStudentCode
                 (''for ('' @ init @ '';'' @ sp0 @ ident @ sp1 @ ''<='' @ sp2 @ decimal n @ rest))
      \<and> limit (parseStudentCode
                 (''for ('' @ init @ '';'' @ sp0 @ ident @ sp1 @ ''<='' @ sp2 @ decimal n @ rest))
          = Some (min (int n + 1) 1000))
   \<and> ((name = ''maxTrees'' \<or> name = ''treeCount'' \<or> name = ''count'')
        \<and> list_all is_space sp1 \<and> list_all is_space sp2
        \<and> (rest = [] \<or> \<not> is_digit (hd rest)) \<and> CHR ''/'' \<notin> set rest \<and> n < 2 ^ 53
        \<and> rx_match False while_re (name @ sp1 @ ''='' @ sp2 @ decimal n @ rest) = None
        \<and> rx_match False for_re (name @ sp1 @ ''='' @ sp2 @ decimal n @ rest) = None \<longrightarrow>
        valid (parseStudentCode (name @ sp1 @ ''='' @ sp2 @ decimal n @ rest))
      \<and> limit (parseStudentCode (name @ sp1 @ ''='' @ sp2 @ decimal n @ rest))
          = Some (min (int n) 1000))"
proof -
  have c1: "valid (parseStudentCode ''while (treeCount < 50) { }'')
     \<and> limit (parseStudentCode ''while (treeCount < 50) { }'') = Some 50" by code_simp
  have c2: "valid (parseStudentCode ''while (treeCount <= 49) { }'')
     \<and> limit (parseStudentCode ''while (treeCount <= 49) { }'') = Some 50" by code_simp
  have c3: "valid (parseStudentCode ''while (50 > treeCount) { }'')
     \<and> limit (parseStudentCode ''while (50 > treeCount) { }'') = Some 50" by code_simp
  have c4: "valid (parseStudentCode ''for(...;i<50;...)'')
     \<and> limit (parseStudentCode ''for(...;i<50;...)'') = Some 50" by code_simp
  have c5: "valid (parseStudentCode ''for (int i = 0; i < 50; i++) { }'')
     \<and> limit (parseStudentCode ''for (int i = 0; i < 50; i++) { }'') = Some 50" by code_simp
  have c6: "valid (parseStudentCode ''for (int i = 0; i <= 49; i++) { }'')
     \<and> limit (parseStudentCode ''for (int i = 0; i <= 49; i++) { }'') = Some 50" by code_simp
  have c7: "valid (parseStudentCode ''maxTrees = 50'')
     \<and> limit (parseStudentCode ''maxTrees = 50'') = Some 50" by code_simp
  have g: "extractLimitFromCondition (ident @ sp1 @ ''<'' @ sp2 @ decimal n) = Some (int n)
      \<and> extractLimitFromCondition (ident @ sp1 @ ''<='' @ sp2 @ decimal n) = Some (int n + 1)
      \<and> extractLimitFromCondition (decimal n @ sp1 @ ''>'' @ sp2 @ ident) = Some (int n)
      \<and> extractLimitFromCondition (decimal n @ sp1 @ ''>='' @ sp2 @ ident) = Some (int n + 1)"
    if h: "ident \<noteq> []" "list_all is_word ident" "list_all is_space sp1" "list_all is_space sp2"
  proof -
    have d: "decimal n \<noteq> []" "list_all is_digit (decimal n)"
      using decimal_digits by simp_all
    show ?thesis
      using extract_lt [OF h(1,2) d h(3,4)] extract_le [OF h(1,2) d h(3,4)]
        extract_gt [OF h(1,2) d h(3,4)] extract_ge [OF h(1,2) d h(3,4)]
      by (simp only: parseInt10_decimal)
  qed
  have w: "valid (parseStudentCode (''while ('' @ (ident @ sp1 @ ''<'' @ sp2 @ decimal n) @ '')'' @ rest))
      \<and> limit (parseStudentCode (''while ('' @ (ident @ sp1 @ ''<'' @ sp2 @ decimal n) @ '')'' @ rest))
          = Some (min (int n) 1000)
      \<and> valid (parseStudentCode (''while ('' @ (ident @ sp1 @ ''<='' @ sp2 @ decimal n) @ '')'' @ rest))
      \<and> limit (parseStudentCode (''while ('' @ (ident @ sp1 @ ''<='' @ sp2 @ decimal n) @ '')'' @ rest))
          = Some (min (int n + 1) 1000)
      \<and> valid (parseStudentCode (''while ('' @ (decimal n @ sp1 @ ''>'' @ sp2 @ ident) @ '')'' @ rest))
      \<and> limit (parseStudentCode (''while ('' @ (decimal n @ sp1 @ ''>'' @ sp2 @ ident) @ '')'' @ rest))
          = Some (min (int n) 1000)
      \<and> valid (parseStudentCode (''while ('' @ (decimal n @ sp1 @ ''>='' @ sp2 @ ident) @ '')'' @ rest))
      \<and> limit (parseStudentCode (''while ('' @ (decimal n @ sp1 @ ''>='' @ sp2 @ ident) @ '')'' @ rest))
          = Some (min (int n + 1) 1000)"
    if h: "ident \<noteq> []" "list_all is_word ident"
      "list_all (\<lambda>ch. is_space ch \<and> \<not> is_line_terminator ch) sp1"
      "list_all (\<lambda>ch. is_space ch \<and> \<not> is_line_terminator ch) sp2"
      "CHR ''/'' \<notin> set rest"
    using parse_while_cmp [OF h, of n] by (intro conjI)
  have f1: "valid (parseStudentCode
                 (''for ('' @ init @ '';'' @ sp0 @ ident @ sp1 @ ''<'' @ sp2 @ decimal n @ rest))
      \<and> limit (parseStudentCode
                 (''for ('' @ init @ '';'' @ sp0 @ ident @ sp1 @ ''<'' @ sp2 @ decimal n @ rest))
          = Some (min (int n) 1000)"
    if h: "init \<noteq> []" "CHR '';'' \<notin> set init" "CHR ''/'' \<notin> set init"
      "list_all is_space sp0" "list_all is_space sp1" "list_all is_space sp2"
      "ident \<noteq> []" "list_all is_word ident"
      "rest = [] \<or> \<not> is_digit (hd rest)" "CHR ''/'' \<notin> set rest"
      "rx_match False while_re
         (''for ('' @ init @ '';'' @ sp0 @ ident @ sp1 @ ''<'' @ sp2 @ decimal n @ rest) = None"
    using parse_for(1,2) [OF h(1-10) _ h(11)] by simp
  have f2: "valid (parseStudentCode
                 (''for ('' @ init @ '';'' @ sp0 @ ident @ sp1 @ ''<='' @ sp2 @ decimal n @ rest))
      \<and> limit (parseStudentCode
                 (''for ('' @ init @ '';'' @ sp0 @ ident @ sp1 @ ''<='' @ sp2 @ decimal n @ rest))
          = Some (min (int n + 1) 1000)"
    if h: "init \<noteq> []" "CHR '';'' \<notin> set init" "CHR ''/'' \<notin> set init"
      "list_all is_space sp0" "list_all is_space sp1" "list_all is_space sp2"
      "ident \<noteq> []" "list_all is_word ident"
      "rest = [] \<or> \<not> is_digit (hd rest)" "CHR ''/'' \<notin> set rest"
      "rx_match False while_re
         (''for ('' @ init @ '';'' @ sp0 @ ident @ sp1 @ ''<='' @ sp2 @ decimal n @ rest) = None"
    using parse_for(1,2) [OF h(1-10) _ h(11)] by simp
  have a: "valid (parseStudentCode (name @ sp1 @ ''='' @ sp2 @ decimal n @ rest))
      \<and> limit (parseStudentCode (name @ sp1 @ ''='' @ sp2 @ decimal n @ rest))
          = Some (min (int n) 1000)"
    if h: "name = ''maxTrees'' \<or> name = ''treeCount'' \<or> name = ''count''"
      "list_all is_space sp1" "list_all is_space sp2"
      "rest = [] \<or> \<not> is_digit (hd rest)" "CHR ''/'' \<notin> set rest"
      "rx_match False while_re (name @ sp1 @ ''='' @ sp2 @ decimal n @ rest) = None"
      "rx_match False for_re (name @ sp1 @ ''='' @ sp2 @ decimal n @ rest) = None"
    using parse_assign(1,2) [OF h] by simp
  show ?thesis
    apply (intro conjI impI)
    using c1 c2 c3 c4 c5 c6 c7 apply simp_all [14]
    subgoal using g by blast
    subgoal using g by blast
    subgoal using g by blast
    subgoal using g by blast
    subgoal using w by blast
    subgoal using w by blast
    subgoal using w by blast
    subgoal using w by blast
    subgoal using w by blast
    subgoal using w by blast
    subgoal using w by blast
    subgoal using w by blast
    subgoal using f1 by blast
    subgoal using f1 by blast
    subgoal using f2 by blast
    subgoal using f2 by blast
    subgoal using a by blast
    subgoal using a by blast
    done
qed

theorem extractor_round_trip_witness:
  "''treeCount'' \<noteq> [] \<and> list_all is_word ''treeCount''
   \<and> list_all (\<lambda>ch. is_space ch \<and> \<not> is_line_terminator ch) '' ''
   \<and> (1234 :: nat) < 2 ^ 53
   \<and> rx_match False while_re ''for (int i = 0; i <= 1234; i++) { SpawnTree(); }'' = None
   \<and> rx_match False while_re ''for (int i = 0; i <= 49; i++) { SpawnTree(); }'' = None
   \<and> rx_match False while_re ''count = 1234;'' = None
   \<and> rx_match False for_re ''count = 1234;'' = None
   \<and> extractLimitFromCondition ''treeCount < 1234'' = Some 1234
   \<and> extractLimitFromCondition ''treeCount <= 1234'' = Some 1235
   \<and> extractLimitFromCondition ''1234 > treeCount'' = Some 1234
   \<and> extractLimitFromCondition ''1234 >= treeCount'' = Some 1235
   \<and> limit (parseStudentCode ''while (treeCount < 1234) { SpawnTree(); }'') = Some 1000
   \<and> limit (parseStudentCode ''while (treeCount <= 49) { SpawnTree(); }'') = Some 50
   \<and> limit (parseStudentCode ''while (49 >= treeCount) { SpawnTree(); }'') = Some 50
   \<and> limit (parseStudentCode ''for (int i = 0; i <= 1234; i++) { SpawnTree(); }'') = Some 1000
   \<and> limit (parseStudentCode ''for (int i = 0; i <= 49; i++) { SpawnTree(); }'') = Some 50
   \<and> limit (parseStudentCode ''count = 1234;'') = Some 1000"
proof -
  have d: "decimal 1234 = ''1234''" "decimal 49 = ''49''" by code_simp+
  have w: "list_all is_word ''treeCount''" "list_all is_word ''i''"
    by (simp_all add: is_word_def)
  have s: "list_all is_space '' ''" "is_space CHR '' ''" "\<not> is_line_terminator CHR '' ''"
    by (simp_all add: is_space_def is_line_terminator_def)
  have r: "\<not> is_digit CHR '';''" by (simp add: is_digit_def)
  have n: "rx_match False while_re ''for (int i = 0; i <= 1234; i++) { SpawnTree(); }'' = None"
    "rx_match False while_re ''for (int i = 0; i <= 49; i++) { SpawnTree(); }'' = None"
    "rx_match False while_re ''count = 1234;'' = None"
    "rx_match False for_re ''count = 1234;'' = None"
    by code_simp+
  note t1 = extractor_round_trip [of "''treeCount''" "'' ''" "'' ''" 1234 "'' { SpawnTree(); }''" "''int i = 0''"
      "'' ''" "''count''"]
  note t2 = extractor_round_trip [of "''treeCount''" "'' ''" "'' ''" 49 "'' { SpawnTree(); }''" "''int i = 0''"
      "'' ''" "''count''"]
  note t3 = extractor_round_trip [of "''i''" "'' ''" "'' ''" 1234 "''; i++) { SpawnTree(); }''" "''int i = 0''"
      "'' ''" "''count''"]
  note t4 = extractor_round_trip [of "''i''" "'' ''" "'' ''" 49 "''; i++) { SpawnTree(); }''" "''int i = 0''"
      "'' ''" "''count''"]
  note t5 = extractor_round_trip [of "''i''" "'' ''" "'' ''" 1234 "'';''" "''int i = 0''"
      "'' ''" "''count''"]
  have e: "extractLimitFromCondition ''treeCount < 1234'' = Some 1234
     \<and> extractLimitFromCondition ''treeCount <= 1234'' = Some 1235
     \<and> extractLimitFromCondition ''1234 > treeCount'' = Some 1234
     \<and> extractLimitFromCondition ''1234 >= treeCount'' = Some 1235
     \<and> limit (parseStudentCode ''while (treeCount < 1234) { SpawnTree(); }'') = Some 1000"
    using t1 w s by (simp add: d)
  have p: "limit (parseStudentCode ''while (treeCount <= 49) { SpawnTree(); }'') = Some 50
     \<and> limit (parseStudentCode ''while (49 >= treeCount) { SpawnTree(); }'') = Some 50"
    using t2 w s by (simp add: d)
  have f: "limit (parseStudentCode ''for (int i = 0; i <= 1234; i++) { SpawnTree(); }'') = Some 1000"
    using t3 w s r n by (simp add: d)
  have f': "limit (parseStudentCode ''for (int i = 0; i <= 49; i++) { SpawnTree(); }'') = Some 50"
    using t4 w s r n by (simp add: d)
  have a: "limit (parseStudentCode ''count = 1234;'') = Some 1000"
    using t5 s r n by (simp add: d)
  show ?thesis
    using e p f f' a w s n by simp
qed

lemma extract_true: "extractLimitFromCondition ''true'' = None"
  by code_simp

text \<open>
  C7, on the code. Above the cap the limit is 1000 on every path, but only the \<open>while\<close>
  path says so: \<open>for (int i = 0; i < 2000; i++)\<close> and \<open>maxTrees = 5000\<close> are accepted with
  the limit 1000 and the single warning about 500 and more trees, while
  \<open>while (treeCount < 2000)\<close> also carries ``Capped at 1000 trees for safety'' and
  \<open>while (true)\<close> carries the error about the infinite loop and ``Safety cap: spawning 1000
  trees''. In general a result of the \<open>for\<close> or the assignment path never holds a warning
  that names a cap, whereas on the \<open>while\<close> path a condition whose number exceeds 1000
  gives the limit 1000 with the warning \<open>CappedAt 1000\<close>, and the condition \<open>true\<close> gives
  the limit 1000 with the error and the warning \<open>SafetyCap 1000\<close>.
\<close>

theorem cap_warning_only_on_while_path:
  "parseStudentCode ''for (int i = 0; i < 2000; i++) { SpawnTree(); }'' =
     \<lparr>valid = True, limit = Some 1000, condition = Some ''i < 2000'', pattern = Some For,
      errors = [], warnings = [Perf500]\<rparr>
   \<and> parseStudentCode ''maxTrees = 5000;'' =
     \<lparr>valid = True, limit = Some 1000, condition = Some ''maxTrees = 5000'',
      pattern = Some Assignment, errors = [], warnings = [Perf500]\<rparr>
   \<and> parseStudentCode ''while (treeCount < 2000) { SpawnTree(); }'' =
     \<lparr>valid = True, limit = Some 1000, condition = Some ''treeCount < 2000'',
      pattern = Some While, errors = [], warnings = [CappedAt 1000, Perf500]\<rparr>
   \<and> parseStudentCode ''while (true) { SpawnTree(); }'' =
     \<lparr>valid = True, limit = Some 1000, condition = Some ''true'', pattern = Some While,
      errors = [InfiniteLoop], warnings = [SafetyCap 1000, Perf500]\<rparr>
   \<and> (pattern (parseStudentCode code) = Some For \<or> pattern (parseStudentCode code) = Some Assignment \<longrightarrow>
        CappedAt k \<notin> set (warnings (parseStudentCode code))
        \<and> SafetyCap k \<notin> set (warnings (parseStudentCode code)))
   \<and> (pattern (parseStudentCode code) = Some While \<longrightarrow>
        (\<forall>c m. condition (parseStudentCode code) = Some c \<and> extractLimitFromCondition c = Some m
               \<and> m > 1000 \<longrightarrow>
          limit (parseStudentCode code) = Some 1000
          \<and> CappedAt 1000 \<in> set (warnings (parseStudentCode code)))
        \<and> (condition (parseStudentCode code) = Some ''true'' \<longrightarrow>
          limit (parseStudentCode code) = Some 1000
          \<and> InfiniteLoop \<in> set (errors (parseStudentCode code))
          \<and> SafetyCap 1000 \<in> set (warnings (parseStudentCode code))))"
proof -
  have e1: "parseStudentCode ''for (int i = 0; i < 2000; i++) { SpawnTree(); }'' =
     \<lparr>valid = True, limit = Some 1000, condition = Some ''i < 2000'', pattern = Some For,
      errors = [], warnings = [Perf500]\<rparr>" by code_simp
  have e2: "parseStudentCode ''maxTrees = 5000;'' =
     \<lparr>valid = True, limit = Some 1000, condition = Some ''maxTrees = 5000'',
      pattern = Some Assignment, errors = [], warnings = [Perf500]\<rparr>" by code_simp
  have e3: "parseStudentCode ''while (treeCount < 2000) { SpawnTree(); }'' =
     \<lparr>valid = True, limit = Some 1000, condition = Some ''treeCount < 2000'',
      pattern = Some While, errors = [], warnings = [CappedAt 1000, Perf500]\<rparr>" by code_simp
  have e4: "parseStudentCode ''while (true) { SpawnTree(); }'' =
     \<lparr>valid = True, limit = Some 1000, condition = Some ''true'', pattern = Some While,
      errors = [InfiniteLoop], warnings = [SafetyCap 1000, Perf500]\<rparr>" by code_simp
  have f: "CappedAt k \<notin> set (warnings (parseStudentCode code))
        \<and> SafetyCap k \<notin> set (warnings (parseStudentCode code))"
    if "pattern (parseStudentCode code) = Some For \<or> pattern (parseStudentCode code) = Some Assignment"
    using that
    by (auto simp: parseStudentCode_def Let_def addPerformanceWarnings_more
             split: option.splits if_splits)
  have w1: "limit (parseStudentCode code) = Some 1000
          \<and> CappedAt 1000 \<in> set (warnings (parseStudentCode code))"
    if "pattern (parseStudentCode code) = Some While"
       "condition (parseStudentCode code) = Some c" "extractLimitFromCondition c = Some m" "m > 1000"
    for c m
    using that
    by (auto simp: parseStudentCode_def Let_def addPerformanceWarnings_more
             addPerformanceWarnings_keeps maxTreeLimit_def
             split: option.splits if_splits)
  have w2: "limit (parseStudentCode code) = Some 1000
          \<and> InfiniteLoop \<in> set (errors (parseStudentCode code))
          \<and> SafetyCap 1000 \<in> set (warnings (parseStudentCode code))"
    if "pattern (parseStudentCode code) = Some While"
       "condition (parseStudentCode code) = Some ''true''"
    using that extract_true
    by (auto simp: parseStudentCode_def Let_def addPerformanceWarnings_more
             addPerformanceWarnings_keeps maxTreeLimit_def
             split: option.splits if_splits)
  show ?thesis
    using e1 e2 e3 e4 f w1 w2 by blast
qed

theorem cap_warning_only_on_while_path_witness:
  "pattern (parseStudentCode ''maxTrees = 5000;'') = Some Assignment
   \<and> limit (parseStudentCode ''maxTrees = 5000;'') = Some 1000
   \<and> CappedAt 1000 \<notin> set (warnings (parseStudentCode ''maxTrees = 5000;''))
   \<and> SafetyCap 1000 \<notin> set (warnings (parseStudentCode ''maxTrees = 5000;''))
   \<and> pattern (parseStudentCode ''while (treeCount < 2000) { SpawnTree(); }'') = Some While
   \<and> extractLimitFromCondition ''treeCount < 2000'' = Some 2000
   \<and> CappedAt 1000 \<in> set (warnings (parseStudentCode ''while (treeCount < 2000) { SpawnTree(); }''))"
proof -
  have x: "extractLimitFromCondition ''treeCount < 2000'' = Some 2000" by code_simp
  show ?thesis
    using cap_warning_only_on_while_path [of "''maxTrees = 5000;''" 1000]
      cap_warning_only_on_while_path [of "''while (treeCount < 2000) { SpawnTree(); }''" 1000]
    by (simp add: x)
qed

section \<open>Validation and completion: theorems\<close>

lemma call_onComplete_no_argument: "call_onComplete cb None w = (Some TypeError, w)"
  by (induction cb) (simp_all add: ScenarioManager_onScenarioComplete_def)

lemma markCheckpoint_fields:
  "state (markCheckpoint c now s) = state s"
  "onComplete (markCheckpoint c now s) = onComplete s"
  "onStateChange (markCheckpoint c now s) = onStateChange s"
  "completionTime (markCheckpoint c now s) = completionTime s"
  "completed (session (markCheckpoint c now s)) = completed (session s)"
  "scenario_id (markCheckpoint c now s) = scenario_id s"
  "validation (markCheckpoint c now s) = validation s"
  by (simp_all add: markCheckpoint_def)

lemma markCheckpoint_reached:
  "map_of (checkpoints (session (markCheckpoint c now s))) c \<noteq> None"
  by (auto simp: markCheckpoint_def map_add_def split: option.splits)

lemma markCheckpoint_keeps:
  "map_of (checkpoints (session s)) c' \<noteq> None
   \<Longrightarrow> map_of (checkpoints (session (markCheckpoint c now s))) c' \<noteq> None"
  by (auto simp: markCheckpoint_def map_add_def split: option.splits)

lemma validate_failure:
  assumes "\<not> (threshold_targetFPS s \<le> reading_fps p
            \<and> threshold_minTrees s \<le> reading_treeCount sc
            \<and> reading_treeCount sc \<le> threshold_maxTrees s)"
  shows "fst (validate p sc now s w) =
           Inr \<lparr>success_r = False, fps_r = reading_fps p, treeCount_r = reading_treeCount sc,
                 targetFPS_r = threshold_targetFPS s,
                 improvement_r = reading_fps p - or_default (fpsBefore (session s)) 10,
                 message_r = False\<rparr>"
    and "fst (snd (validate p sc now s w)) =
           s\<lparr>session := (session s)\<lparr>fpsAfter := Some (reading_fps p)\<rparr>,
             base_metrics := (base_metrics s)\<lparr>metrics_fpsAfter := Some (reading_fps p)\<rparr>,
             hintButton := map_option (\<lambda>b. True) (hintButton s)\<rparr>"
    and "progress_completed (snd (snd (validate p sc now s w))) = progress_completed w"
    and "progress_totalTime (snd (snd (validate p sc now s w))) = progress_totalTime w"
    and "tracker_calls (snd (snd (validate p sc now s w))) = tracker_calls w"
proof -
  have n: "(threshold_targetFPS s \<le> reading_fps p
            \<and> threshold_minTrees s \<le> reading_treeCount sc
            \<and> reading_treeCount sc \<le> threshold_maxTrees s) = False"
    using assms by blast
  show "fst (validate p sc now s w) =
           Inr \<lparr>success_r = False, fps_r = reading_fps p, treeCount_r = reading_treeCount sc,
                 targetFPS_r = threshold_targetFPS s,
                 improvement_r = reading_fps p - or_default (fpsBefore (session s)) 10,
                 message_r = False\<rparr>"
    and "fst (snd (validate p sc now s w)) =
           s\<lparr>session := (session s)\<lparr>fpsAfter := Some (reading_fps p)\<rparr>,
             base_metrics := (base_metrics s)\<lparr>metrics_fpsAfter := Some (reading_fps p)\<rparr>,
             hintButton := map_option (\<lambda>b. True) (hintButton s)\<rparr>"
    and "progress_completed (snd (snd (validate p sc now s w))) = progress_completed w"
    and "progress_totalTime (snd (snd (validate p sc now s w))) = progress_totalTime w"
    and "tracker_calls (snd (snd (validate p sc now s w))) = tracker_calls w"
    unfolding validate_def Let_def n showFeedback_def by simp_all
qed

lemma validate_success:
  assumes "threshold_targetFPS s \<le> reading_fps p"
    "threshold_minTrees s \<le> reading_treeCount sc"
    "reading_treeCount sc \<le> threshold_maxTrees s"
  shows "validate p sc now s w =
       (Inl TypeError,
        markCheckpoint ''tree_count_valid'' now (markCheckpoint ''fps_improved'' now
          (s\<lparr>session := (session s)\<lparr>fpsAfter := Some (reading_fps p)\<rparr>,
             base_metrics := (base_metrics s)\<lparr>metrics_fpsAfter := Some (reading_fps p)\<rparr>\<rparr>)),
        w)"
proof (cases "onComplete s")
  case None
  then show ?thesis
    using assms by (simp add: validate_def Let_def markCheckpoint_fields)
next
  case (Some cb)
  then show ?thesis
    using assms
    by (simp add: validate_def Let_def markCheckpoint_fields call_onComplete_no_argument)
qed

lemma thresholds_configured:
  "threshold_targetFPS (s\<lparr>validation := Some \<lparr>targetFPS = Some t,
       acceptableRange = Some \<lparr>range_min = Some lo, range_max = Some hi\<rparr>\<rparr>\<rparr>)
     = (if t = 0 then 45 else t)"
  "threshold_minTrees (s\<lparr>validation := Some \<lparr>targetFPS = Some t,
       acceptableRange = Some \<lparr>range_min = Some lo, range_max = Some hi\<rparr>\<rparr>\<rparr>)
     = (if lo = 0 then 10 else lo)"
  "threshold_maxTrees (s\<lparr>validation := Some \<lparr>targetFPS = Some t,
       acceptableRange = Some \<lparr>range_min = Some lo, range_max = Some hi\<rparr>\<rparr>\<rparr>)
     = (if hi = 0 then 175 else hi)"
  by (simp_all add: threshold_targetFPS_def threshold_minTrees_def threshold_maxTrees_def
        or_default_def defaults_targetFPS_def defaults_min_def defaults_max_def)

lemma thresholds_missing:
  "threshold_targetFPS (s\<lparr>validation := None\<rparr>) = 45"
  "threshold_minTrees (s\<lparr>validation := None\<rparr>) = 10"
  "threshold_maxTrees (s\<lparr>validation := None\<rparr>) = 175"
  by (simp_all add: threshold_targetFPS_def threshold_minTrees_def threshold_maxTrees_def
        or_default_def defaults_targetFPS_def defaults_min_def defaults_max_def)

lemma complete_state: "state (fst (snd (complete succ now s w))) = Complete"
  by (simp add: complete_def Let_def split: option.splits prod.splits)

lemma checkCompletion_decision:
  "(case validation s of
      None \<Rightarrow> fst (checkCompletion p now s w) = Inl TypeError
    | Some v \<Rightarrow>
        (if (case targetFPS v of
               None \<Rightarrow> False
             | Some t \<Rightarrow> t \<le> or_default (metrics_fpsAfter (base_metrics s)) (reading_fps p))
         then state (fst (snd (checkCompletion p now s w))) = Complete
         else state (fst (snd (checkCompletion p now s w))) = state s
            \<and> snd (snd (checkCompletion p now s w)) = w))"
  by (simp add: checkCompletion_def Let_def complete_def split: option.splits prod.splits)

lemma complete_callback:
  assumes "onComplete s = None \<or> onComplete s = Some ManagerCallback"
  shows "fst (complete succ now s w) = None"
    and "onComplete (fst (snd (complete succ now s w))) = onComplete s"
    and "scenario_id (fst (snd (complete succ now s w))) = scenario_id s"
    and "tracker_calls (snd (snd (complete succ now s w))) = tracker_calls w"
    and "current_user (snd (snd (complete succ now s w))) = current_user w"
  using assms
  by (auto simp: complete_def Let_def ScenarioManager_onScenarioComplete_def emitStateChange_def)

lemma onComplete_method_emits:
  assumes "onComplete s = None \<or> onComplete s = Some ManagerCallback"
    and "current_user w = Some u"
  shows "fst (InfiniteForest_onComplete now s w) = None"
    and "onComplete (fst (snd (InfiniteForest_onComplete now s w))) = onComplete s"
    and "scenario_id (fst (snd (InfiniteForest_onComplete now s w))) = scenario_id s"
    and "current_user (snd (snd (InfiniteForest_onComplete now s w))) = Some u"
    and "\<exists>score. tracker_calls (snd (snd (InfiniteForest_onComplete now s w)))
            = tracker_calls w @ [(u, scenario_id s, score)]"
proof -
  define s3 where "s3 = (markCheckpoint ''scenario_complete'' now
                     (s\<lparr>session := (session s)\<lparr>completed := True\<rparr>\<rparr>))\<lparr>hintTimers := []\<rparr>"
  define s4 where "s4 = showSuccessOverlay
                 \<lparr>stats_fpsBefore = or_default (fpsBefore (session s3)) 10,
                  stats_fpsAfter = or_default (fpsAfter (session s3)) 60,
                  stats_improvement = js_round (real_of_int (to_number (fpsAfter (session s3))
                       - or_default (fpsBefore (session s3)) 10)
                       / real_of_int (or_default (fpsBefore (session s3)) 10) * 100),
                  stats_attempts = attempts (session s3),
                  stats_time = (now - to_number (startTime (session s3))) div 1000,
                  stats_hintsUsed = hintsShown (session s3)\<rparr> s3"
  define w1 where "w1 = w\<lparr>editor_log := editor_log w
                 @ [(LogSuccess, CompletedIn ((now - to_number (startTime (session s3))) div 1000)
                       (attempts (session s4)))]\<rparr>"
  have s4: "onComplete s4 = onComplete s" "scenario_id s4 = scenario_id s"
    by (simp_all add: s4_def s3_def showSuccessOverlay_def markCheckpoint_def split: option.splits)
  have w1: "tracker_calls w1 = tracker_calls w" "current_user w1 = Some u"
    using assms(2) by (simp_all add: w1_def)
  have slot: "onComplete s4 = None \<or> onComplete s4 = Some ManagerCallback"
    using assms(1) s4 by simp
  note c = complete_callback [OF slot, of True now w1]
  have eq: "InfiniteForest_onComplete now s w =
    (case complete True now s4 w1 of
           (Some e, s5, w2) \<Rightarrow> (Some e, s5, w2)
         | (None, s5, w2) \<Rightarrow> (None, s5, saveProgress now s5 w2))"
    unfolding InfiniteForest_onComplete_def Let_def s4_def w1_def s3_def by (rule refl)
  obtain s5 w2 where r: "complete True now s4 w1 = (None, s5, w2)"
    using c(1) by (cases "complete True now s4 w1") auto
  have r5: "onComplete s5 = onComplete s" "scenario_id s5 = scenario_id s"
    "tracker_calls w2 = tracker_calls w" "current_user w2 = Some u"
    using c(2-5) r s4 w1 by simp_all
  have res: "InfiniteForest_onComplete now s w = (None, s5, saveProgress now s5 w2)"
    by (simp add: eq r)
  show "fst (InfiniteForest_onComplete now s w) = None"
    and "onComplete (fst (snd (InfiniteForest_onComplete now s w))) = onComplete s"
    and "scenario_id (fst (snd (InfiniteForest_onComplete now s w))) = scenario_id s"
    and "current_user (snd (snd (InfiniteForest_onComplete now s w))) = Some u"
    and "\<exists>score. tracker_calls (snd (snd (InfiniteForest_onComplete now s w)))
            = tracker_calls w @ [(u, scenario_id s, score)]"
    by (simp_all add: res r5 saveProgress_def)
qed

lemma thresholds_cong:
  assumes "validation s' = validation s"
  shows "threshold_targetFPS s' = threshold_targetFPS s"
    and "threshold_minTrees s' = threshold_minTrees s"
    and "threshold_maxTrees s' = threshold_maxTrees s"
  using assms
  by (simp_all add: threshold_targetFPS_def threshold_minTrees_def threshold_maxTrees_def)

text \<open>
  C1, as stated, fails. With a configured range of 0 to 175 trees, 5 trees and 60 frames
  per second meet both conditions of the claim, and \<open>validate\<close> reports a failure: the
  configured minimum 0 is falsy and the default 10 takes its place. And with a configured
  range of 10 to 175 trees and 5 trees at 60 frames per second, where \<open>validate\<close> reports
  a failure because of the count, \<open>checkCompletion\<close> then completes the scenario, and the
  manager records it as completed.
\<close>

theorem validate_ignores_configured_zero:
  "validation forest_min0
     = Some \<lparr>targetFPS = Some 45,
             acceptableRange = Some \<lparr>range_min = Some 0, range_max = Some 175\<rparr>\<rparr>
   \<and> reading_fps (Some (profiler_at 60)) = 60
   \<and> reading_treeCount (Some (scene_with 5)) = 5
   \<and> (45 :: int) \<le> 60 \<and> (0 :: int) \<le> 5 \<and> (5 :: int) \<le> 175
   \<and> fst (validate (Some (profiler_at 60)) (Some (scene_with 5)) 5000 forest_min0 World)
       = Inr \<lparr>success_r = False, fps_r = 60, treeCount_r = 5, targetFPS_r = 45,
               improvement_r = 48, message_r = False\<rparr>
   \<and> threshold_minTrees managed_forest = 10
   \<and> \<not> (10 :: int) \<le> 5
   \<and> (case validate (Some (profiler_at 60)) (Some (scene_with 5)) 5000 managed_forest World of
         (r, s, w) \<Rightarrow>
           r = Inr \<lparr>success_r = False, fps_r = 60, treeCount_r = 5, targetFPS_r = 45,
                     improvement_r = 48, message_r = False\<rparr>
         \<and> state s = Fixed
         \<and> (case checkCompletion (Some (profiler_at 60)) 7000 s w of
               (c, s', w') \<Rightarrow>
                 state s' = Complete \<and> progress_completed w' = [''infinite-forest'']))"
  by code_simp

text \<open>
  C1, amended. \<open>validate\<close> reads the frame rate and the tree count, a missing reading
  counting as 0, and takes its success branch, on which the checkpoints \<open>fps_improved\<close> and
  \<open>tree_count_valid\<close> are recorded, if and only if the frame rate is at least the target
  and the count lies between the minimum and the maximum, bounds included. The three
  thresholds are the configured ones, or the defaults 45, 10 and 175 where the configured
  value is missing or is 0. On the other branch \<open>validate\<close> returns a result with
  \<open>success = false\<close>, and the scenario is not completed: its state, its flag \<open>completed\<close>,
  its checkpoints and its completion time are as before, and neither the manager nor the
  progress tracker has received anything. \<open>checkCompletion\<close>, which the scenario inherits,
  tests the frame rate alone, against the configured target without a default, and
  completes the scenario when it passes, whatever the tree count.
\<close>

theorem validate_decision:
  "(if threshold_targetFPS s \<le> reading_fps p
       \<and> threshold_minTrees s \<le> reading_treeCount sc
       \<and> reading_treeCount sc \<le> threshold_maxTrees s
    then map_of (checkpoints (session (fst (snd (validate p sc now s w))))) ''fps_improved''
           \<noteq> None
       \<and> map_of (checkpoints (session (fst (snd (validate p sc now s w))))) ''tree_count_valid''
           \<noteq> None
    else fst (validate p sc now s w)
           = Inr \<lparr>success_r = False, fps_r = reading_fps p,
                   treeCount_r = reading_treeCount sc, targetFPS_r = threshold_targetFPS s,
                   improvement_r = reading_fps p - or_default (fpsBefore (session s)) 10,
                   message_r = False\<rparr>
       \<and> state (fst (snd (validate p sc now s w))) = state s
       \<and> completed (session (fst (snd (validate p sc now s w)))) = completed (session s)
       \<and> checkpoints (session (fst (snd (validate p sc now s w)))) = checkpoints (session s)
       \<and> completionTime (fst (snd (validate p sc now s w))) = completionTime s
       \<and> progress_completed (snd (snd (validate p sc now s w))) = progress_completed w
       \<and> progress_totalTime (snd (snd (validate p sc now s w))) = progress_totalTime w
       \<and> tracker_calls (snd (snd (validate p sc now s w))) = tracker_calls w)
   \<and> threshold_targetFPS (s\<lparr>validation := Some \<lparr>targetFPS = Some t,
          acceptableRange = Some \<lparr>range_min = Some lo, range_max = Some hi\<rparr>\<rparr>\<rparr>)
        = (if t = 0 then 45 else t)
   \<and> threshold_minTrees (s\<lparr>validation := Some \<lparr>targetFPS = Some t,
          acceptableRange = Some \<lparr>range_min = Some lo, range_max = Some hi\<rparr>\<rparr>\<rparr>)
        = (if lo = 0 then 10 else lo)
   \<and> threshold_maxTrees (s\<lparr>validation := Some \<lparr>targetFPS = Some t,
          acceptableRange = Some \<lparr>range_min = Some lo, range_max = Some hi\<rparr>\<rparr>\<rparr>)
        = (if hi = 0 then 175 else hi)
   \<and> threshold_targetFPS (s\<lparr>validation := None\<rparr>) = 45
   \<and> threshold_minTrees (s\<lparr>validation := None\<rparr>) = 10
   \<and> threshold_maxTrees (s\<lparr>validation := None\<rparr>) = 175
   \<and> (case validation s of
         None \<Rightarrow> fst (checkCompletion p now s w) = Inl TypeError
       | Some v \<Rightarrow>
           (if (case targetFPS v of
                  None \<Rightarrow> False
                | Some t \<Rightarrow> t \<le> or_default (metrics_fpsAfter (base_metrics s)) (reading_fps p))
            then state (fst (snd (checkCompletion p now s w))) = Complete
            else state (fst (snd (checkCompletion p now s w))) = state s
               \<and> snd (snd (checkCompletion p now s w)) = w))"
proof -
  have dec: "if threshold_targetFPS s \<le> reading_fps p
       \<and> threshold_minTrees s \<le> reading_treeCount sc
       \<and> reading_treeCount sc \<le> threshold_maxTrees s
    then map_of (checkpoints (session (fst (snd (validate p sc now s w))))) ''fps_improved''
           \<noteq> None
       \<and> map_of (checkpoints (session (fst (snd (validate p sc now s w))))) ''tree_count_valid''
           \<noteq> None
    else fst (validate p sc now s w)
           = Inr \<lparr>success_r = False, fps_r = reading_fps p,
                   treeCount_r = reading_treeCount sc, targetFPS_r = threshold_targetFPS s,
                   improvement_r = reading_fps p - or_default (fpsBefore (session s)) 10,
                   message_r = False\<rparr>
       \<and> state (fst (snd (validate p sc now s w))) = state s
       \<and> completed (session (fst (snd (validate p sc now s w)))) = completed (session s)
       \<and> checkpoints (session (fst (snd (validate p sc now s w)))) = checkpoints (session s)
       \<and> completionTime (fst (snd (validate p sc now s w))) = completionTime s
       \<and> progress_completed (snd (snd (validate p sc now s w))) = progress_completed w
       \<and> progress_totalTime (snd (snd (validate p sc now s w))) = progress_totalTime w
       \<and> tracker_calls (snd (snd (validate p sc now s w))) = tracker_calls w"
  proof (cases "threshold_targetFPS s \<le> reading_fps p
       \<and> threshold_minTrees s \<le> reading_treeCount sc
       \<and> reading_treeCount sc \<le> threshold_maxTrees s")
    case True
    then have v: "fst (snd (validate p sc now s w)) =
        markCheckpoint ''tree_count_valid'' now (markCheckpoint ''fps_improved'' now
          (s\<lparr>session := (session s)\<lparr>fpsAfter := Some (reading_fps p)\<rparr>,
             base_metrics := (base_metrics s)\<lparr>metrics_fpsAfter := Some (reading_fps p)\<rparr>\<rparr>))"
      by (simp add: validate_success)
    show ?thesis
      unfolding if_P [OF True] v
      using markCheckpoint_reached markCheckpoint_keeps [OF markCheckpoint_reached]
      by blast
  next
    case False
    note f = validate_failure [OF False, of now w]
    show ?thesis
      unfolding if_not_P [OF False] by (simp add: f)
  qed
  show ?thesis
    using dec thresholds_configured [where s = s and t = t and lo = lo and hi = hi]
      thresholds_missing [of s]
      checkCompletion_decision [where s = s and p = p and now = now and w = w]
    by blast
qed

theorem validate_decision_witness:
  "threshold_targetFPS managed_forest = 45
   \<and> threshold_minTrees managed_forest = 10
   \<and> threshold_maxTrees managed_forest = 175
   \<and> reading_fps (Some (profiler_at 60)) = 60
   \<and> reading_fps (Some (profiler_at 30)) = 30
   \<and> reading_treeCount (Some (scene_with 50)) = 50
   \<and> map_of (checkpoints (session (fst (snd
         (validate (Some (profiler_at 60)) (Some (scene_with 50)) 5000 managed_forest World)))))
         ''fps_improved'' \<noteq> None
   \<and> fst (validate (Some (profiler_at 30)) (Some (scene_with 50)) 5000 managed_forest World)
       = Inr \<lparr>success_r = False, fps_r = 30, treeCount_r = 50, targetFPS_r = 45,
               improvement_r = 18, message_r = False\<rparr>
   \<and> state (fst (snd
         (validate (Some (profiler_at 30)) (Some (scene_with 50)) 5000 managed_forest World)))
       = Fixed"
proof -
  have t: "threshold_targetFPS managed_forest = 45" "threshold_minTrees managed_forest = 10"
    "threshold_maxTrees managed_forest = 175"
    by code_simp+
  have r: "reading_fps (Some (profiler_at 60)) = 60" "reading_fps (Some (profiler_at 30)) = 30"
    "reading_treeCount (Some (scene_with 50)) = 50"
    by code_simp+
  have s: "state managed_forest = Fixed" "fpsBefore (session managed_forest) = Some 12"
    by code_simp+
  show ?thesis
    using validate_decision [of managed_forest "Some (profiler_at 60)" "Some (scene_with 50)"
              5000 World]
      validate_decision [of managed_forest "Some (profiler_at 30)" "Some (scene_with 50)"
              5000 World]
    by (simp add: t r s or_default_def)
qed

text \<open>
  C9. The code does not emit the completion record exactly once. Whenever the decision of
  \<open>validate\<close> is positive, the call \<open>this.onComplete()\<close> finds the property that the
  constructor of \<open>Scenario\<close> has set to \<open>null\<close>, or the callback that the manager or the
  user interface has stored there, which reads \<open>event.success\<close> of an argument it was not
  given: \<open>validate\<close> ends with a \<open>TypeError\<close>, the scenario is not completed and nothing
  reaches the manager or the progress tracker, at the first call and at every later one.
  The method \<open>onComplete()\<close> of \<open>InfiniteForest\<close>, which the call was meant to reach, has no
  guard either: called twice, it sends the progress tracker two completion records.
\<close>

theorem validate_emits_no_completion:
  "(threshold_targetFPS s \<le> reading_fps p
      \<and> threshold_minTrees s \<le> reading_treeCount sc
      \<and> reading_treeCount sc \<le> threshold_maxTrees s \<longrightarrow>
        fst (validate p sc now s w) = Inl TypeError
      \<and> snd (snd (validate p sc now s w)) = w
      \<and> state (fst (snd (validate p sc now s w))) = state s
      \<and> completed (session (fst (snd (validate p sc now s w)))) = completed (session s)
      \<and> fst (validate p sc now' (fst (snd (validate p sc now s w))) w) = Inl TypeError
      \<and> snd (snd (validate p sc now' (fst (snd (validate p sc now s w))) w)) = w)
   \<and> ((onComplete s = None \<or> onComplete s = Some ManagerCallback) \<and> current_user w = Some u \<longrightarrow>
        (case InfiniteForest_onComplete now s w of
           (e1, s1, w1) \<Rightarrow>
             (case InfiniteForest_onComplete now' s1 w1 of
                (e2, s2, w2) \<Rightarrow>
                  e1 = None \<and> e2 = None
                \<and> (\<exists>score1 score2.
                      tracker_calls w2
                        = tracker_calls w @ [(u, scenario_id s, score1), (u, scenario_id s, score2)]))))"
proof -
  have first: "fst (validate p sc now s w) = Inl TypeError
      \<and> snd (snd (validate p sc now s w)) = w
      \<and> state (fst (snd (validate p sc now s w))) = state s
      \<and> completed (session (fst (snd (validate p sc now s w)))) = completed (session s)
      \<and> fst (validate p sc now' (fst (snd (validate p sc now s w))) w) = Inl TypeError
      \<and> snd (snd (validate p sc now' (fst (snd (validate p sc now s w))) w)) = w"
    if d: "threshold_targetFPS s \<le> reading_fps p"
      "threshold_minTrees s \<le> reading_treeCount sc"
      "reading_treeCount sc \<le> threshold_maxTrees s"
  proof -
    define s' where "s' = fst (snd (validate p sc now s w))"
    have v: "validate p sc now s w = (Inl TypeError, s', w)"
      unfolding s'_def by (simp add: validate_success [OF d])
    have s': "s' = markCheckpoint ''tree_count_valid'' now (markCheckpoint ''fps_improved'' now
          (s\<lparr>session := (session s)\<lparr>fpsAfter := Some (reading_fps p)\<rparr>,
             base_metrics := (base_metrics s)\<lparr>metrics_fpsAfter := Some (reading_fps p)\<rparr>\<rparr>))"
      unfolding s'_def by (simp add: validate_success [OF d])
    have same: "validation s' = validation s" "state s' = state s"
      "completed (session s') = completed (session s)"
      by (simp_all add: s' markCheckpoint_fields)
    have d': "threshold_targetFPS s' \<le> reading_fps p"
      "threshold_minTrees s' \<le> reading_treeCount sc"
      "reading_treeCount sc \<le> threshold_maxTrees s'"
      using d by (simp_all add: thresholds_cong [OF same(1)])
    show ?thesis
      unfolding s'_def [symmetric]
      by (simp add: v validate_success [OF d'] same)
  qed
  have second: "case InfiniteForest_onComplete now s w of
           (e1, s1, w1) \<Rightarrow>
             (case InfiniteForest_onComplete now' s1 w1 of
                (e2, s2, w2) \<Rightarrow>
                  e1 = None \<and> e2 = None
                \<and> (\<exists>score1 score2.
                      tracker_calls w2
                        = tracker_calls w @ [(u, scenario_id s, score1), (u, scenario_id s, score2)]))"
    if slot: "onComplete s = None \<or> onComplete s = Some ManagerCallback"
      and user: "current_user w = Some u"
  proof -
    obtain e1 s1 w1 where r1: "InfiniteForest_onComplete now s w = (e1, s1, w1)"
      by (cases "InfiniteForest_onComplete now s w") auto
    obtain e2 s2 w2 where r2: "InfiniteForest_onComplete now' s1 w1 = (e2, s2, w2)"
      by (cases "InfiniteForest_onComplete now' s1 w1") auto
    note a = onComplete_method_emits [OF slot user, of now]
    have e1: "e1 = None" and slot1: "onComplete s1 = None \<or> onComplete s1 = Some ManagerCallback"
      and id1: "scenario_id s1 = scenario_id s" and user1: "current_user w1 = Some u"
      using a(1-4) slot by (simp_all add: r1)
    from a(5) obtain score1 where t1: "tracker_calls w1 = tracker_calls w @ [(u, scenario_id s, score1)]"
      by (auto simp: r1)
    note b = onComplete_method_emits [OF slot1 user1, of now']
    have e2: "e2 = None" using b(1) by (simp add: r2)
    from b(5) obtain score2 where "tracker_calls w2 = tracker_calls w1 @ [(u, scenario_id s1, score2)]"
      by (auto simp: r2)
    then have "tracker_calls w2
        = tracker_calls w @ [(u, scenario_id s, score1), (u, scenario_id s, score2)]"
      by (simp add: t1 id1)
    then show ?thesis
      using e1 e2 by (simp add: r1 r2)
  qed
  show ?thesis
  proof (rule conjI)
    show "threshold_targetFPS s \<le> reading_fps p
      \<and> threshold_minTrees s \<le> reading_treeCount sc
      \<and> reading_treeCount sc \<le> threshold_maxTrees s \<longrightarrow>
        fst (validate p sc now s w) = Inl TypeError
      \<and> snd (snd (validate p sc now s w)) = w
      \<and> state (fst (snd (validate p sc now s w))) = state s
      \<and> completed (session (fst (snd (validate p sc now s w)))) = completed (session s)
      \<and> fst (validate p sc now' (fst (snd (validate p sc now s w))) w) = Inl TypeError
      \<and> snd (snd (validate p sc now' (fst (snd (validate p sc now s w))) w)) = w"
    proof (rule impI)
      assume a: "threshold_targetFPS s \<le> reading_fps p
        \<and> threshold_minTrees s \<le> reading_treeCount sc
        \<and> reading_treeCount sc \<le> threshold_maxTrees s"
      from a have "threshold_targetFPS s \<le> reading_fps p"
        "threshold_minTrees s \<le> reading_treeCount sc"
        "reading_treeCount sc \<le> threshold_maxTrees s"
        by simp_all
      then show "fst (validate p sc now s w) = Inl TypeError
        \<and> snd (snd (validate p sc now s w)) = w
        \<and> state (fst (snd (validate p sc now s w))) = state s
        \<and> completed (session (fst (snd (validate p sc now s w)))) = completed (session s)
        \<and> fst (validate p sc now' (fst (snd (validate p sc now s w))) w) = Inl TypeError
        \<and> snd (snd (validate p sc now' (fst (snd (validate p sc now s w))) w)) = w"
        by (rule first)
    qed
  next
    show "(onComplete s = None \<or> onComplete s = Some ManagerCallback) \<and> current_user w = Some u \<longrightarrow>
        (case InfiniteForest_onComplete now s w of
           (e1, s1, w1) \<Rightarrow>
             (case InfiniteForest_onComplete now' s1 w1 of
                (e2, s2, w2) \<Rightarrow>
                  e1 = None \<and> e2 = None
                \<and> (\<exists>score1 score2.
                      tracker_calls w2
                        = tracker_calls w @ [(u, scenario_id s, score1), (u, scenario_id s, score2)])))"
    proof (rule impI)
      assume a: "(onComplete s = None \<or> onComplete s = Some ManagerCallback) \<and> current_user w = Some u"
      show "case InfiniteForest_onComplete now s w of
           (e1, s1, w1) \<Rightarrow>
             (case InfiniteForest_onComplete now' s1 w1 of
                (e2, s2, w2) \<Rightarrow>
                  e1 = None \<and> e2 = None
                \<and> (\<exists>score1 score2.
                      tracker_calls w2
                        = tracker_calls w @ [(u, scenario_id s, score1), (u, scenario_id s, score2)]))"
        by (rule second [OF conjunct1 [OF a] conjunct2 [OF a]])
    qed
  qed
qed

theorem validate_emits_no_completion_witness:
  "threshold_targetFPS managed_forest \<le> reading_fps (Some (profiler_at 60))
   \<and> threshold_minTrees managed_forest \<le> reading_treeCount (Some (scene_with 50))
   \<and> reading_treeCount (Some (scene_with 50)) \<le> threshold_maxTrees managed_forest
   \<and> onComplete managed_forest = Some ManagerCallback
   \<and> current_user World = Some ''student-1''
   \<and> fst (validate (Some (profiler_at 60)) (Some (scene_with 50)) 5000 managed_forest World)
       = Inl TypeError
   \<and> snd (snd (validate (Some (profiler_at 60)) (Some (scene_with 50)) 5000 managed_forest World))
       = World
   \<and> tracker_calls World = [] \<and> progress_completed World = []
   \<and> state (fst (snd
         (validate (Some (profiler_at 60)) (Some (scene_with 50)) 5000 managed_forest World)))
       = Fixed
   \<and> \<not> completed (session (fst (snd
         (validate (Some (profiler_at 60)) (Some (scene_with 50)) 5000 managed_forest World))))
   \<and> fst (validate (Some (profiler_at 60)) (Some (scene_with 50)) 9000
            (fst (snd (validate (Some (profiler_at 60)) (Some (scene_with 50)) 5000
                         managed_forest World))) World)
       = Inl TypeError
   \<and> fst (validate (Some (profiler_at 60)) (Some (scene_with 50)) 5000 InfiniteForest World)
       = Inl TypeError
   \<and> (case InfiniteForest_onComplete 5000 managed_forest World of
         (e1, s1, w1) \<Rightarrow>
           (case InfiniteForest_onComplete 9000 s1 w1 of
              (e2, s2, w2) \<Rightarrow>
                tracker_calls w2 = [(''student-1'', ''infinite-forest'', 100),
                                    (''student-1'', ''infinite-forest'', 100)]
              \<and> progress_completed w2 = [''infinite-forest'']
              \<and> progress_totalTime w2 = 14000))"
proof -
  have h: "threshold_targetFPS managed_forest \<le> reading_fps (Some (profiler_at 60))"
    "threshold_minTrees managed_forest \<le> reading_treeCount (Some (scene_with 50))"
    "reading_treeCount (Some (scene_with 50)) \<le> threshold_maxTrees managed_forest"
    by code_simp+
  have c: "onComplete managed_forest = Some ManagerCallback"
    "current_user World = Some ''student-1''"
    "tracker_calls World = []" "progress_completed World = []"
    "state managed_forest = Fixed" "\<not> completed (session managed_forest)"
    by code_simp+
  have f: "fst (validate (Some (profiler_at 60)) (Some (scene_with 50)) 5000 InfiniteForest World)
       = Inl TypeError"
    by code_simp
  have m: "case InfiniteForest_onComplete 5000 managed_forest World of
         (e1, s1, w1) \<Rightarrow>
           (case InfiniteForest_onComplete 9000 s1 w1 of
              (e2, s2, w2) \<Rightarrow>
                tracker_calls w2 = [(''student-1'', ''infinite-forest'', 100),
                                    (''student-1'', ''infinite-forest'', 100)]
              \<and> progress_completed w2 = [''infinite-forest'']
              \<and> progress_totalTime w2 = 14000)"
    by code_simp
  show ?thesis
    using validate_emits_no_completion [of managed_forest "Some (profiler_at 60)"
              "Some (scene_with 50)" 5000 World 9000 "''student-1''"]
      h c f m
    by simp
qed

end
